theory Spec2Isabelle
  imports Main
begin

section \<open>JavaScript values, failures and effects\<close>

text \<open>
  The framework of \<^verbatim>\<open>packages/ws/src/framework.ts\<close> handles values it knows
  nothing about: handler results, event arguments, the result of the upgrade predicate.
  What the code asks of such a value is its truthiness (\<^verbatim>\<open>!result\<close>,
  \<^verbatim>\<open>!authResult\<close>), whether it is a function (\<^verbatim>\<open>typeof ... === 'function'\<close>)
  and whether it is an object. Objects and functions are references; numbers are
  represented by the integers and \<open>NaN\<close>, which is all that truthiness distinguishes
  (zero, \<open>NaN\<close>, the rest).
\<close>

datatype jsval =
    JUndefined
  | JNull
  | JBool bool
  | JNum int
  | JNaN
  | JStr string
  | JObject nat
  | JFunction nat

text \<open>ECMAScript \<open>ToBoolean\<close>: what \<^verbatim>\<open>if (!v)\<close> tests.\<close>

fun truthy :: "jsval \<Rightarrow> bool" where
  "truthy JUndefined = False"
| "truthy JNull = False"
| "truthy (JBool b) = b"
| "truthy (JNum n) = (n \<noteq> 0)"
| "truthy JNaN = False"
| "truthy (JStr s) = (s \<noteq> [])"
| "truthy (JObject r) = True"
| "truthy (JFunction f) = True"

text \<open>
  A raised failure: the \<^verbatim>\<open>MidwayInvokeForbiddenError\<close> the framework throws itself
  (line 261, carrying the method name), whatever application code throws, a
  \<^verbatim>\<open>TypeError\<close> of the language or of the transport (with what it was raised for), or
  the transport's error for a socket that is still connecting.
\<close>

datatype error =
    MidwayInvokeForbiddenError string
  | Thrown jsval
  | TypeError string
  | NotOpenError

type_synonym 'a result = "error + 'a"

text \<open>
  Application code (middleware, guards, handler methods, acknowledgment callbacks) runs on
  a state \<open>'w\<close> of its own and either returns or raises; the state it leaves behind is
  kept in both cases. An awaited promise is represented by its settled outcome, and one
  call of application code is one step. What is recorded of a connection are the
  framework's own effects on it: what application code does to a socket through the
  transport's interface is not the framework's doing and is not part of the model.
\<close>

type_synonym ('w, 'a) comp = "'w \<Rightarrow> 'a result \<times> 'w"

type_synonym 'w middleware = "('w, jsval) comp \<Rightarrow> ('w, jsval) comp"

section \<open>Upgrade gate (\<^verbatim>\<open>run\<close>, lines 100--132; \<^verbatim>\<open>onWebSocketUpgrade\<close>, lines 178--189)\<close>

datatype upgrade_effect =
    LoggerInfo string
  | LoggerWarn string
  | LoggerDebug string
  | LoggerErrorWith string error
  | SocketDestroy
  | HandleUpgrade
  | EmitConnection

text \<open>
  The part of the framework object the upgrade listener reads: the registered predicate,
  \<^verbatim>\<open>null\<close> at first (line 43). The predicate is given by the settled outcome
  of the promise it returns for a request.
\<close>

record 'req framework =
  upgradeAuthHandler :: "('req \<Rightarrow> jsval result) option"

definition initial_framework :: "'req framework" where
  "initial_framework = \<lparr>upgradeAuthHandler = None\<rparr>"

definition onWebSocketUpgrade ::
  "('req \<Rightarrow> jsval result) option \<Rightarrow> 'req framework \<Rightarrow> 'req framework \<times> upgrade_effect list" where
  "onWebSocketUpgrade handler fw =
     (fw\<lparr>upgradeAuthHandler := handler\<rparr>,
      (case handler of
         Some h \<Rightarrow> [LoggerInfo ''[midway:ws] WebSocket upgrade authentication handler set'']
       | None \<Rightarrow> [LoggerInfo ''[midway:ws] WebSocket upgrade authentication handler removed'']))"

text \<open>
  \<^verbatim>\<open>this.app.handleUpgrade(request, socket, head, ws => this.app.emit('connection', ws, request))\<close>:
  the transport library performs the handshake and calls back when it completes;
  \<open>handshake\<close> says whether it does for this request.
\<close>

definition handleUpgrade :: "('req \<Rightarrow> bool) \<Rightarrow> 'req \<Rightarrow> upgrade_effect list" where
  "handleUpgrade handshake request =
     HandleUpgrade # (if handshake request then [EmitConnection] else [])"

definition on_upgrade :: "'req framework \<Rightarrow> ('req \<Rightarrow> bool) \<Rightarrow> 'req \<Rightarrow> upgrade_effect list" where
  "on_upgrade fw handshake request =
     (case upgradeAuthHandler fw of
        Some h \<Rightarrow>
          (case h request of
             Inr authResult \<Rightarrow>
               if \<not> truthy authResult
               then [LoggerWarn ''[midway:ws] WebSocket upgrade authentication failed'',
                     SocketDestroy]
               else LoggerDebug ''[midway:ws] WebSocket upgrade authentication passed''
                      # handleUpgrade handshake request
           | Inl err \<Rightarrow>
               [LoggerErrorWith ''[midway:ws] WebSocket upgrade authentication error:'' err,
                SocketDestroy])
      | None \<Rightarrow> handleUpgrade handshake request)"

text \<open>What the connecting peer and the transport see of an upgrade: everything but the log.\<close>

fun is_log :: "upgrade_effect \<Rightarrow> bool" where
  "is_log (LoggerInfo m) = True"
| "is_log (LoggerWarn m) = True"
| "is_log (LoggerDebug m) = True"
| "is_log (LoggerErrorWith m e) = True"
| "is_log SocketDestroy = False"
| "is_log HandleUpgrade = False"
| "is_log EmitConnection = False"

definition visible :: "upgrade_effect list \<Rightarrow> upgrade_effect list" where
  "visible es = filter (\<lambda>e. \<not> is_log e) es"

section \<open>Sockets, event descriptors and effects\<close>

datatype readyState = CONNECTING | OPEN | CLOSING | CLOSED

text \<open>
  A socket as the transport keeps it in \<^verbatim>\<open>app.clients\<close>: its identity, its
  \<^verbatim>\<open>readyState\<close>, and the \<^verbatim>\<open>isAlive\<close> property the framework adds
  (\<open>None\<close> while the property has never been assigned).
\<close>

record client =
  cid :: nat
  readyState :: readyState
  isAlive :: "bool option"

text \<open>
  Modelled from the spec: \<^verbatim>\<open>WSEventTypeEnum\<close> and \<^verbatim>\<open>WSEventInfo\<close> are declared in
  \<^verbatim>\<open>@midwayjs/core\<close>. The event kinds are the five of the spec's data model
  (on-connect, on-message, on-disconnect, response:emit, response:broadcast), under the
  names the source uses; a descriptor has the fields the source reads.
\<close>

datatype WSEventTypeEnum = ON_CONNECTION | ON_MESSAGE | ON_DISCONNECTION | EMIT | BROADCAST

record 'w WSEventInfo =
  propertyName :: string
  eventType :: WSEventTypeEnum
  messageEventName :: string
  middleware :: "'w middleware list"

text \<open>
  An entry of \<^verbatim>\<open>methodMap\<close>: \<^verbatim>\<open>{ responseEvents: [] }\<close>. The object
  \<^verbatim>\<open>methodMap\<close> itself is a plain object (line 242): under a name it holds an entry
  of its own, or, for the names every plain object inherits (\<^verbatim>\<open>toString\<close>,
  \<^verbatim>\<open>valueOf\<close> and the like), an inherited value that is truthy and has no
  \<^verbatim>\<open>responseEvents\<close>. Line 247 stores such a value back as it is, so a slot of the
  model is an entry or an inherited value.
\<close>

record 'w method_entry =
  responseEvents :: "'w WSEventInfo list"

datatype 'w slot = Entry "'w method_entry" | Inherited

definition object_prototype_names :: "string list" where
  "object_prototype_names =
     [''constructor'', ''hasOwnProperty'', ''isPrototypeOf'', ''propertyIsEnumerable'',
      ''toLocaleString'', ''toString'', ''valueOf'', ''__proto__'', ''__defineGetter__'',
      ''__defineSetter__'', ''__lookupGetter__'', ''__lookupSetter__'']"

text \<open>\<^verbatim>\<open>methodMap[name]\<close>: the own property, or else what the object inherits.\<close>

definition get_property :: "(string \<rightharpoonup> 'w slot) \<Rightarrow> string \<Rightarrow> 'w slot option" where
  "get_property m name =
     (case m name of
        Some s \<Rightarrow> Some s
      | None \<Rightarrow> if name \<in> set object_prototype_names then Some Inherited else None)"

text \<open>
  What \<^verbatim>\<open>formatResult\<close> hands to \<^verbatim>\<open>send\<close>: the \<^verbatim>\<open>JSON.stringify\<close> of
  the result, or the result as it is.
\<close>

datatype payload = Stringified jsval | AsIs jsval

text \<open>
  Modelled from the spec: \<^verbatim>\<open>Types.isObject\<close> of \<^verbatim>\<open>@midwayjs/core\<close>.
  Object-shaped results are serialized, primitive results are sent as they are.
\<close>

fun isObject :: "jsval \<Rightarrow> bool" where
  "isObject (JObject r) = True"
| "isObject v = False"

definition formatResult :: "jsval \<Rightarrow> payload" where
  "formatResult result = (if isObject result then Stringified result else AsIs result)"

text \<open>
  The framework's effects on sockets and on the log. \<open>Unhandled\<close> records that the
  transport emitted an event on a socket that had no listener for it: the emitter drops
  the event.
\<close>

datatype effect =
    LoggerError error
  | LoggerErrorSocket jsval
  | Send nat payload
  | Ping nat
  | Terminate nat
  | Ack nat jsval
  | Unhandled string "jsval list"

section \<open>Response binder (\<^verbatim>\<open>bindSocketResponse\<close>, lines 360--389)\<close>

text \<open>
  The transport's \<^verbatim>\<open>send\<close>, as the \<^verbatim>\<open>ws\<close> library has it: it throws on a socket
  that is still connecting; it turns a number into its string; and it throws a
  \<^verbatim>\<open>TypeError\<close> for data that is then neither a string nor a buffer, which is the lot
  of a boolean or a function that \<^verbatim>\<open>formatResult\<close> passed on as it is. A send that
  throws sends nothing. \<^verbatim>\<open>bindSocketResponse\<close> has no \<^verbatim>\<open>try\<close>: a send that
  throws ends it, with what was sent before.
\<close>

fun sendable :: "payload \<Rightarrow> bool" where
  "sendable (Stringified v) = True"
| "sendable (AsIs (JStr s)) = True"
| "sendable (AsIs (JNum n)) = True"
| "sendable (AsIs v) = False"

definition send :: "client \<Rightarrow> payload \<Rightarrow> unit result \<times> effect list" where
  "send socket p =
     (if readyState socket = CONNECTING then (Inl NotOpenError, [])
      else if sendable p then (Inr (), [Send (cid socket) p])
      else (Inl (TypeError ''send''), []))"

text \<open>One statement after another: the second runs when the first has not thrown.\<close>

definition and_then ::
  "unit result \<times> effect list \<Rightarrow> unit result \<times> effect list \<Rightarrow> unit result \<times> effect list" where
  "and_then a b =
     (case a of
        (Inl err, es) \<Rightarrow> (Inl err, es)
      | (Inr u, es) \<Rightarrow> (case b of (r, es') \<Rightarrow> (r, es @ es')))"

text \<open>Lines 374--378: \<^verbatim>\<open>this.app.clients.forEach\<close>, sending to the open ones.\<close>

fun broadcast :: "client list \<Rightarrow> payload \<Rightarrow> unit result \<times> effect list" where
  "broadcast [] p = (Inr (), [])"
| "broadcast (client # rest) p =
     (if readyState client = OPEN then and_then (send client p) (broadcast rest p)
      else broadcast rest p)"

text \<open>Lines 371--379: the body of the loop over \<^verbatim>\<open>responseEvents\<close>.\<close>

definition respond ::
  "client list \<Rightarrow> jsval \<Rightarrow> client \<Rightarrow> 'w WSEventInfo \<Rightarrow> unit result \<times> effect list" where
  "respond clients result socket wsEventInfo =
     (if eventType wsEventInfo = EMIT then send socket (formatResult result)
      else if eventType wsEventInfo = BROADCAST then broadcast clients (formatResult result)
      else (Inr (), []))"

fun respond_all ::
  "client list \<Rightarrow> jsval \<Rightarrow> client \<Rightarrow> 'w WSEventInfo list \<Rightarrow> unit result \<times> effect list" where
  "respond_all clients result socket [] = (Inr (), [])"
| "respond_all clients result socket (wsEventInfo # rest) =
     and_then (respond clients result socket wsEventInfo)
       (respond_all clients result socket rest)"

text \<open>
  Line 369 tests \<^verbatim>\<open>methodMap[propertyName]\<close>; on an inherited value line 370 iterates
  over \<^verbatim>\<open>undefined\<close> and throws.
\<close>

definition bindSocketResponse ::
  "client list \<Rightarrow> jsval \<Rightarrow> client \<Rightarrow> string \<Rightarrow> (string \<rightharpoonup> 'w slot)
     \<Rightarrow> unit result \<times> effect list" where
  "bindSocketResponse clients result socket name methodMap =
     (if \<not> truthy result then (Inr (), [])
      else
        (case get_property methodMap name of
           Some (Entry entry) \<Rightarrow>
             and_then (respond_all clients result socket (responseEvents entry))
               (if length (responseEvents entry) = 0
                then send socket (formatResult result)
                else (Inr (), []))
         | Some Inherited \<Rightarrow> (Inl (TypeError ''responseEvents is not iterable''), [])
         | None \<Rightarrow> send socket (formatResult result)))"

section \<open>Middleware pipeline\<close>

text \<open>
  Modelled from the spec: \<^verbatim>\<open>middlewareService.compose\<close> and \<^verbatim>\<open>applyMiddleware\<close> are
  in \<^verbatim>\<open>@midwayjs/core\<close>. Each interceptor receives the continuation \<open>nxt\<close>; it may
  call it or not, and post-process or catch what it gives. Interceptors run in
  registration order; past the end of the chain stands the continuation the composed
  callable was given, and a composed callable called without one resolves to
  \<^verbatim>\<open>undefined\<close>. \<^verbatim>\<open>applyMiddleware\<close> puts the framework's own middleware in front
  of the one it is given.
\<close>

fun compose :: "'w middleware list \<Rightarrow> 'w middleware" where
  "compose [] nxt = nxt"
| "compose (m # ms) nxt = m (compose ms nxt)"

definition resolve_undefined :: "('w, jsval) comp" where
  "resolve_undefined w = (Inr JUndefined, w)"

section \<open>Event router (\<^verbatim>\<open>addNamespace\<close>, lines 200--358)\<close>

text \<open>
  The collaborators of a handler group: the middleware lists, the resolution of the
  controller from the connection's request context (\<^verbatim>\<open>getAsync\<close>, which may fail),
  the controller (its methods by name, applied to an argument list), the authorization
  guard, and the callables that arrive as event arguments (by their reference).
\<close>

record 'w env =
  connectionMiddlewareManager :: "'w middleware list"
  controllerConnectionMiddleware :: "'w middleware list"
  controllerMiddleware :: "'w middleware list"
  frameworkMiddleware :: "'w middleware list"
  getAsync :: "('w, unit) comp"
  controller :: "string \<Rightarrow> jsval list \<Rightarrow> ('w, jsval) comp"
  runGuard :: "string \<Rightarrow> ('w, bool) comp"
  callFunction :: "nat \<Rightarrow> jsval \<Rightarrow> ('w, jsval) comp"

definition applyMiddleware :: "'w env \<Rightarrow> 'w middleware \<Rightarrow> ('w, jsval) comp" where
  "applyMiddleware env lastMiddleware =
     compose (frameworkMiddleware env @ [lastMiddleware]) resolve_undefined"

text \<open>
  The listeners the connection handler registers with \<^verbatim>\<open>socket.on\<close>: lines 214, 217,
  289 and 333. A message or close listener is a closure over its descriptor.
\<close>

datatype 'w listener =
    ErrorListener
  | PongListener
  | MessageListener "'w WSEventInfo"
  | CloseListener "'w WSEventInfo"

text \<open>
  One connection: the socket, its registered listeners in registration order (with the
  event name of each), the \<^verbatim>\<open>methodMap\<close> object of the connection handler's
  invocation (the listeners are closures over it, so they read it as it is when they
  run), the server's \<^verbatim>\<open>clients\<close>, the application's state and the effects so far.
\<close>

record 'w state =
  sock :: client
  listeners :: "(string \<times> 'w listener) list"
  methodMap :: "string \<rightharpoonup> 'w slot"
  app_clients :: "client list"
  world :: 'w
  trace :: "effect list"

definition await_app :: "('w, 'a) comp \<Rightarrow> 'w state \<Rightarrow> 'a result \<times> 'w state" where
  "await_app c st = (case c (world st) of (r, w') \<Rightarrow> (r, st\<lparr>world := w'\<rparr>))"

definition try_catch ::
  "('s \<Rightarrow> unit result \<times> 's) \<Rightarrow> (error \<Rightarrow> 's \<Rightarrow> unit result \<times> 's) \<Rightarrow> 's \<Rightarrow> unit result \<times> 's" where
  "try_catch body handler s =
     (case body s of
        (Inl err, s') \<Rightarrow> handler err s'
      | (Inr u, s') \<Rightarrow> (Inr u, s'))"

definition logger_error :: "error \<Rightarrow> 'w state \<Rightarrow> unit result \<times> 'w state" where
  "logger_error err st = (Inr (), st\<lparr>trace := trace st @ [LoggerError err]\<rparr>)"

definition bind_response :: "jsval \<Rightarrow> string \<Rightarrow> 'w state \<Rightarrow> unit result \<times> 'w state" where
  "bind_response result name st =
     (case bindSocketResponse (app_clients st) result (sock st) name (methodMap st) of
        (r, es) \<Rightarrow> (r, st\<lparr>trace := trace st @ es\<rparr>))"

text \<open>Lines 256--272: the last middleware of an on-connect pipeline.\<close>

definition guarded_invoke :: "'w env \<Rightarrow> string \<Rightarrow> jsval list \<Rightarrow> 'w middleware" where
  "guarded_invoke env name args nxt w =
     (case runGuard env name w of
        (Inl err, w') \<Rightarrow> (Inl err, w')
      | (Inr isPassed, w') \<Rightarrow>
          if \<not> isPassed then (Inl (MidwayInvokeForbiddenError name), w')
          else controller env name args w')"

definition on_connection_pipeline :: "'w env \<Rightarrow> 'w WSEventInfo \<Rightarrow> jsval list \<Rightarrow> ('w, jsval) comp" where
  "on_connection_pipeline env wsEventInfo args =
     compose (middleware wsEventInfo @ [guarded_invoke env (propertyName wsEventInfo) args])
       resolve_undefined"

text \<open>Lines 252--286.\<close>

definition on_connection_event ::
  "'w env \<Rightarrow> 'w WSEventInfo \<Rightarrow> jsval \<Rightarrow> 'w state \<Rightarrow> unit result \<times> 'w state" where
  "on_connection_event env wsEventInfo request =
     try_catch
       (\<lambda>st. case await_app (on_connection_pipeline env wsEventInfo
                    [JObject (cid (sock st)), request]) st of
                (Inl err, st') \<Rightarrow> (Inl err, st')
              | (Inr result, st') \<Rightarrow> bind_response result (propertyName wsEventInfo) st')
       logger_error"

text \<open>Lines 294--312: the pipeline of a message event.\<close>

definition message_pipeline :: "'w env \<Rightarrow> 'w WSEventInfo \<Rightarrow> jsval list \<Rightarrow> ('w, jsval) comp" where
  "message_pipeline env wsEventInfo args =
     applyMiddleware env
       (compose (controllerMiddleware env @ middleware wsEventInfo
                   @ [\<lambda>nxt. controller env (propertyName wsEventInfo) args]))"

text \<open>\<^verbatim>\<open>args[args.length - 1]\<close>: \<^verbatim>\<open>undefined\<close> when there is no argument.\<close>

definition last_arg :: "jsval list \<Rightarrow> jsval" where
  "last_arg args = (if args = [] then JUndefined else last args)"

definition first_arg :: "jsval list \<Rightarrow> jsval" where
  "first_arg args = (case args of [] \<Rightarrow> JUndefined | a # rest \<Rightarrow> a)"

text \<open>Lines 289--328: the listener of a message event.\<close>

definition message_listener ::
  "'w env \<Rightarrow> 'w WSEventInfo \<Rightarrow> jsval list \<Rightarrow> 'w state \<Rightarrow> unit result \<times> 'w state" where
  "message_listener env wsEventInfo args =
     try_catch
       (\<lambda>st. case await_app (message_pipeline env wsEventInfo args) st of
                (Inl err, st') \<Rightarrow> (Inl err, st')
              | (Inr result, st') \<Rightarrow>
                  (case last_arg args of
                     JFunction f \<Rightarrow>
                       (case await_app (callFunction env f result)
                               (st'\<lparr>trace := trace st' @ [Ack f result]\<rparr>) of
                          (Inl err, st'') \<Rightarrow> (Inl err, st'')
                        | (Inr v, st'') \<Rightarrow> (Inr (), st''))
                   | other \<Rightarrow> bind_response result (propertyName wsEventInfo) st'))
       logger_error"

text \<open>Lines 333--347: the listener of the close event.\<close>

definition close_listener ::
  "'w env \<Rightarrow> 'w WSEventInfo \<Rightarrow> jsval list \<Rightarrow> 'w state \<Rightarrow> unit result \<times> 'w state" where
  "close_listener env wsEventInfo args =
     try_catch
       (\<lambda>st. case await_app (controller env (propertyName wsEventInfo) [first_arg args]) st of
                (Inl err, st') \<Rightarrow> (Inl err, st')
              | (Inr result, st') \<Rightarrow> bind_response result (propertyName wsEventInfo) st')
       logger_error"

text \<open>Lines 217--219.\<close>

definition pong_listener :: "client \<Rightarrow> client" where
  "pong_listener socket = socket\<lparr>isAlive := Some True\<rparr>"

fun run_listener ::
  "'w env \<Rightarrow> 'w listener \<Rightarrow> jsval list \<Rightarrow> 'w state \<Rightarrow> unit result \<times> 'w state" where
  "run_listener env ErrorListener args st =
     (Inr (), st\<lparr>trace := trace st @ [LoggerErrorSocket (first_arg args)]\<rparr>)"
| "run_listener env PongListener args st =
     (Inr (), st\<lparr>sock := pong_listener (sock st)\<rparr>)"
| "run_listener env (MessageListener wsEventInfo) args st =
     message_listener env wsEventInfo args st"
| "run_listener env (CloseListener wsEventInfo) args st =
     close_listener env wsEventInfo args st"

text \<open>
  The transport emits the event \<open>name\<close> on the socket: the listeners registered under that
  name run in registration order, each to completion; what a listener's promise settles
  to is ignored by the emitter. With no listener the event is dropped.
\<close>

fun run_listeners ::
  "'w env \<Rightarrow> (string \<times> 'w listener) list \<Rightarrow> jsval list \<Rightarrow> 'w state \<Rightarrow> 'w state" where
  "run_listeners env [] args st = st"
| "run_listeners env ((name, l) # ls) args st =
     run_listeners env ls args (snd (run_listener env l args st))"

definition listeners_for :: "string \<Rightarrow> 'w state \<Rightarrow> (string \<times> 'w listener) list" where
  "listeners_for name st = filter (\<lambda>(n, l). n = name) (listeners st)"

definition socket_emit :: "'w env \<Rightarrow> string \<Rightarrow> jsval list \<Rightarrow> 'w state \<Rightarrow> 'w state" where
  "socket_emit env name args st =
     (if listeners_for name st = [] then st\<lparr>trace := trace st @ [Unhandled name args]\<rparr>
      else run_listeners env (listeners_for name st) args st)"

text \<open>
  While the connection handler is suspended at an \<^verbatim>\<open>await\<close>, control is with the
  transport, which may emit inbound events on the socket: the awaited work is application
  code (connection middleware, the resolution of the controller, an on-connect handler)
  and takes the time it takes. \<open>deliver\<close> emits the events that arrive during one
  suspension, in order. A schedule lists, suspension by suspension, the events that
  arrive; a suspension during which nothing arrives has the empty list.
\<close>

type_synonym inbound = "string \<times> jsval list"

fun deliver :: "'w env \<Rightarrow> inbound list \<Rightarrow> 'w state \<Rightarrow> 'w state" where
  "deliver env [] st = st"
| "deliver env ((name, args) # rest) st = deliver env rest (socket_emit env name args st)"

text \<open>The events of the first suspension of a schedule, and the rest of the schedule.\<close>

definition arrived :: "inbound list list \<Rightarrow> inbound list" where
  "arrived arrivals = (case arrivals of [] \<Rightarrow> [] | a # rest \<Rightarrow> a)"

definition later :: "inbound list list \<Rightarrow> inbound list list" where
  "later arrivals = (case arrivals of [] \<Rightarrow> [] | a # rest \<Rightarrow> rest)"

text \<open>Lines 246--248: \<^verbatim>\<open>methodMap[name] = methodMap[name] || { responseEvents: [] }\<close>.\<close>

definition slot_or_new :: "(string \<rightharpoonup> 'w slot) \<Rightarrow> string \<Rightarrow> 'w slot" where
  "slot_or_new m name =
     (case get_property m name of Some s \<Rightarrow> s | None \<Rightarrow> Entry \<lparr>responseEvents = []\<rparr>)"

definition init_entry :: "string \<Rightarrow> 'w state \<Rightarrow> 'w state" where
  "init_entry name st =
     st\<lparr>methodMap := (methodMap st)(name \<mapsto> slot_or_new (methodMap st) name)\<rparr>"

text \<open>
  Lines 350--352: \<^verbatim>\<open>methodMap[name].responseEvents.push(wsEventInfo)\<close>, outside every
  \<^verbatim>\<open>try\<close>. On an inherited value \<^verbatim>\<open>responseEvents\<close> is \<^verbatim>\<open>undefined\<close> and the
  call throws.
\<close>

definition push_response :: "'w WSEventInfo \<Rightarrow> 'w state \<Rightarrow> unit result \<times> 'w state" where
  "push_response wsEventInfo st =
     (case get_property (methodMap st) (propertyName wsEventInfo) of
        Some (Entry entry) \<Rightarrow>
          (Inr (), st\<lparr>methodMap := (methodMap st)(propertyName wsEventInfo \<mapsto>
             Entry \<lparr>responseEvents = responseEvents entry @ [wsEventInfo]\<rparr>)\<rparr>)
      | Some Inherited \<Rightarrow> (Inl (TypeError ''push''), st)
      | None \<Rightarrow> (Inl (TypeError ''responseEvents''), st))"

definition register :: "string \<Rightarrow> 'w listener \<Rightarrow> 'w state \<Rightarrow> 'w state" where
  "register name l st = st\<lparr>listeners := listeners st @ [(name, l)]\<rparr>"

text \<open>
  Lines 245--354: the body of the loop over the descriptors. \<open>during\<close> are the inbound
  events the transport emits while this iteration is suspended at
  \<^verbatim>\<open>await socket.requestContext.getAsync(target)\<close> (line 249). That await stands outside
  every \<^verbatim>\<open>try\<close>: when it fails, the iteration fails with it.
  No listener is registered between the awaits of an on-connect iteration (lines 253--278)
  and line 249 of the next one, so an event that arrives during the former meets the same
  listeners as one that arrives at the latter.
\<close>

definition process_descriptor ::
  "'w env \<Rightarrow> jsval \<Rightarrow> 'w WSEventInfo \<Rightarrow> inbound list \<Rightarrow> 'w state \<Rightarrow> unit result \<times> 'w state" where
  "process_descriptor env request wsEventInfo during st =
     (case await_app (getAsync env)
             (deliver env during (init_entry (propertyName wsEventInfo) st)) of
        (Inl err, st1) \<Rightarrow> (Inl err, st1)
      | (Inr u, st1) \<Rightarrow>
          if eventType wsEventInfo = ON_CONNECTION
          then on_connection_event env wsEventInfo request st1
          else if eventType wsEventInfo = ON_MESSAGE
          then (Inr (), register (messageEventName wsEventInfo) (MessageListener wsEventInfo) st1)
          else if eventType wsEventInfo = ON_DISCONNECTION
          then (Inr (), register ''close'' (CloseListener wsEventInfo) st1)
          else push_response wsEventInfo st1)"

fun descriptors_loop ::
  "'w env \<Rightarrow> jsval \<Rightarrow> 'w WSEventInfo list \<Rightarrow> inbound list list \<Rightarrow> 'w state
     \<Rightarrow> unit result \<times> 'w state" where
  "descriptors_loop env request [] arrivals st = (Inr (), st)"
| "descriptors_loop env request (wsEventInfo # rest) arrivals st =
     (case process_descriptor env request wsEventInfo (arrived arrivals) st of
        (Inl err, st') \<Rightarrow> (Inl err, st')
      | (Inr u, st') \<Rightarrow> descriptors_loop env request rest (later arrivals) st')"

text \<open>
  Lines 212--356: the listener of the server's \<^verbatim>\<open>connection\<close> event. The first
  suspension of the schedule is \<^verbatim>\<open>await connectFn(socket)\<close> (line 234), the following
  ones belong to the descriptors in order. A failure of the connection middleware is not
  caught: the handler's promise is rejected and the descriptors are not reached. Nor is
  a failure of the loop (line 249, line 350): the descriptors after it are not reached.
\<close>

definition on_connection ::
  "'w env \<Rightarrow> 'w WSEventInfo list \<Rightarrow> jsval \<Rightarrow> inbound list list \<Rightarrow> 'w state
     \<Rightarrow> unit result \<times> 'w state" where
  "on_connection env wsEventInfos request arrivals st =
     (let st1 = st\<lparr>sock := (sock st)\<lparr>isAlive := Some True\<rparr>\<rparr>;
          st2 = register ''pong'' PongListener (register ''error'' ErrorListener st1)
      in case await_app (compose (connectionMiddlewareManager env
                                    @ controllerConnectionMiddleware env) resolve_undefined) st2 of
           (Inl err, st3) \<Rightarrow> (Inl err, deliver env (arrived arrivals) st3)
         | (Inr r, st3) \<Rightarrow>
             descriptors_loop env request wsEventInfos (later arrivals)
               ((deliver env (arrived arrivals) st3)\<lparr>methodMap := Map.empty\<rparr>))"

text \<open>A socket the transport has just accepted, before the connection handler runs.\<close>

definition accepted :: "client \<Rightarrow> client list \<Rightarrow> 'w \<Rightarrow> 'w state" where
  "accepted socket clients w =
     \<lparr>sock = socket, listeners = [], methodMap = Map.empty, app_clients = clients,
      world = w, trace = []\<rparr>"

section \<open>Liveness monitor (\<^verbatim>\<open>startHeartBeat\<close>, lines 409--420)\<close>

text \<open>Lines 412--417: what one tick does to one socket.\<close>

definition heartbeat_check :: "client \<Rightarrow> client \<times> effect list" where
  "heartbeat_check socket =
     (if isAlive socket = Some False then (socket, [Terminate (cid socket)])
      else (socket\<lparr>isAlive := Some False\<rparr>, [Ping (cid socket)]))"

text \<open>One tick of the interval: \<^verbatim>\<open>this.app.clients.forEach\<close>.\<close>

fun heartbeat_tick :: "client list \<Rightarrow> client list \<times> effect list" where
  "heartbeat_tick [] = ([], [])"
| "heartbeat_tick (socket # rest) =
     (case heartbeat_check socket of
        (socket', es) \<Rightarrow>
          (case heartbeat_tick rest of (rest', es') \<Rightarrow> (socket' # rest', es @ es')))"

text \<open>
  What happens to the monitored sockets over time: a tick of the interval, or a pong from
  the socket \<open>k\<close>, which runs the pong listener of that socket.
\<close>

datatype hb_event = Tick | Pong nat

fun pong_from :: "nat \<Rightarrow> client list \<Rightarrow> client list" where
  "pong_from k [] = []"
| "pong_from k (socket # rest) =
     (if cid socket = k then pong_listener socket else socket) # pong_from k rest"

fun hb_step :: "hb_event \<Rightarrow> client list \<times> effect list \<Rightarrow> client list \<times> effect list" where
  "hb_step Tick (cs, tr) = (case heartbeat_tick cs of (cs', es) \<Rightarrow> (cs', tr @ es))"
| "hb_step (Pong k) (cs, tr) = (pong_from k cs, tr)"

fun hb_run :: "hb_event list \<Rightarrow> client list \<times> effect list \<Rightarrow> client list \<times> effect list" where
  "hb_run [] s = s"
| "hb_run (ev # evs) s = hb_run evs (hb_step ev s)"

text \<open>
  The spec's words: a connection fails to answer two consecutive probes when two ticks
  follow each other with no pong of that connection between them. \<open>seen_by k\<close> keeps of a
  history what concerns the connection \<open>k\<close>.
\<close>

fun seen_by :: "nat \<Rightarrow> hb_event list \<Rightarrow> hb_event list" where
  "seen_by k [] = []"
| "seen_by k (Tick # evs) = Tick # seen_by k evs"
| "seen_by k (Pong j # evs) = (if j = k then Pong j # seen_by k evs else seen_by k evs)"

fun two_unanswered :: "hb_event list \<Rightarrow> bool" where
  "two_unanswered (Tick # Tick # evs) = True"
| "two_unanswered (ev # evs) = two_unanswered evs"
| "two_unanswered [] = False"

text \<open>
  The view of one connection \<open>k\<close>: the effects on it over a history of its own events,
  from the value \<open>a\<close> of its \<^verbatim>\<open>isAlive\<close>; and the effects of a trace that concern it.
\<close>

fun hb_solo :: "nat \<Rightarrow> bool option \<Rightarrow> hb_event list \<Rightarrow> effect list" where
  "hb_solo k a [] = []"
| "hb_solo k a (Tick # evs) =
     (if a = Some False then Terminate k # hb_solo k a evs
      else Ping k # hb_solo k (Some False) evs)"
| "hb_solo k a (Pong j # evs) = hb_solo k (Some True) evs"

definition concerns :: "nat \<Rightarrow> effect \<Rightarrow> bool" where
  "concerns k e = (e = Ping k \<or> e = Terminate k)"

text \<open>
  The spec's words for what the descriptor loop builds. The response-policy descriptors
  are the emit and broadcast ones; \<open>responses_before name pre\<close> are those of the method
  \<open>name\<close> among the descriptors \<open>pre\<close>; \<open>registrations ds\<close> are the listeners the
  on-message and on-disconnect descriptors of \<open>ds\<close> stand for, in declaration order.
\<close>

definition is_response :: "'w WSEventInfo \<Rightarrow> bool" where
  "is_response d = (eventType d = EMIT \<or> eventType d = BROADCAST)"

definition responses_before :: "string \<Rightarrow> 'w WSEventInfo list \<Rightarrow> 'w WSEventInfo list" where
  "responses_before name pre = filter (\<lambda>d. propertyName d = name \<and> is_response d) pre"

definition registration :: "'w WSEventInfo \<Rightarrow> (string \<times> 'w listener) list" where
  "registration d =
     (if eventType d = ON_MESSAGE then [(messageEventName d, MessageListener d)]
      else if eventType d = ON_DISCONNECTION then [(''close'', CloseListener d)]
      else [])"

definition registrations :: "'w WSEventInfo list \<Rightarrow> (string \<times> 'w listener) list" where
  "registrations ds = concat (map registration ds)"


text \<open>
  What a dispatch adds to the trace for a run of the response binder: the sends, and the
  log line of the \<^verbatim>\<open>catch\<close> around it when the binder throws.
\<close>

definition logged_effects :: "unit result \<times> effect list \<Rightarrow> effect list" where
  "logged_effects r = (case r of (Inl err, es) \<Rightarrow> es @ [LoggerError err] | (Inr u, es) \<Rightarrow> es)"

text \<open>
  What \<^verbatim>\<open>methodMap[name]\<close> is after the descriptors \<open>pre\<close>, from an empty object: the
  inherited value for a name the object inherits, the entry with the response-policy
  descriptors of \<open>name\<close> among \<open>pre\<close> when \<open>pre\<close> mentions the method, nothing otherwise.
\<close>

definition expected_slot :: "'w WSEventInfo list \<Rightarrow> string \<Rightarrow> 'w slot option" where
  "expected_slot pre name =
     (if name \<in> set object_prototype_names then Some Inherited
      else if name \<in> propertyName ` set pre
      then Some (Entry \<lparr>responseEvents = responses_before name pre\<rparr>)
      else None)"

section \<open>A handler group to run the model on\<close>

text \<open>
  The application state is the list of the controller methods called so far. The method
  \<^verbatim>\<open>fail\<close> raises, every other method returns \<^verbatim>\<open>'ok'\<close>; the guard refuses the
  method \<^verbatim>\<open>secret\<close>; an acknowledgment callback returns.
\<close>

definition demo_env :: "string list env" where
  "demo_env =
     \<lparr>connectionMiddlewareManager = [], controllerConnectionMiddleware = [],
      controllerMiddleware = [], frameworkMiddleware = [],
      getAsync = (\<lambda>w. (Inr (), w)),
      controller = (\<lambda>name args w.
         if name = ''fail'' then (Inl (Thrown (JStr ''boom'')), w @ [name])
         else (Inr (JStr ''ok''), w @ [name])),
      runGuard = (\<lambda>name w. (Inr (name \<noteq> ''secret''), w)),
      callFunction = (\<lambda>f v w. (Inr JUndefined, w @ [''ack'']))\<rparr>"

definition descriptor :: "string \<Rightarrow> WSEventTypeEnum \<Rightarrow> string \<Rightarrow> string list WSEventInfo" where
  "descriptor name kind event =
     \<lparr>propertyName = name, eventType = kind, messageEventName = event, middleware = []\<rparr>"

definition demo_socket :: client where
  "demo_socket = \<lparr>cid = 1, readyState = OPEN, isAlive = None\<rparr>"

text \<open>
  The same group behind a connection middleware that takes note of its run and goes on,
  and a second client of the server.
\<close>

definition auth_middleware :: "string list middleware" where
  "auth_middleware nxt w = nxt (w @ [''auth''])"

definition demo_env_auth :: "string list env" where
  "demo_env_auth = demo_env\<lparr>connectionMiddlewareManager := [auth_middleware]\<rparr>"

definition other_socket :: client where
  "other_socket = \<lparr>cid = 2, readyState = OPEN, isAlive = None\<rparr>"

text \<open>A middleware that handles the failure of what it wraps and returns normally.\<close>

definition swallow :: "string list middleware" where
  "swallow nxt w = (case nxt w of (Inl err, w') \<Rightarrow> (Inr JUndefined, w') | (Inr v, w') \<Rightarrow> (Inr v, w'))"

section \<open>Theorems\<close>

subsection \<open>Upgrade gate\<close>

text \<open>
  C1. For an upgrade attempt with a registered predicate, when the predicate's promise is
  rejected (or the predicate raises) with \<open>err\<close>, or resolves to a falsy value \<open>v\<close>, the
  socket is destroyed, \<^verbatim>\<open>handleUpgrade\<close> is not called and no \<^verbatim>\<open>connection\<close> event is
  emitted; apart from the log line the two failure paths are the same: the socket's
  destruction and nothing else. With no predicate registered the listener does nothing
  but call \<^verbatim>\<open>handleUpgrade\<close>.
\<close>

theorem upgrade_gate_rejection:
  "(upgradeAuthHandler fw = Some h \<and>
      (h request = Inl err \<or> (h request = Inr v \<and> \<not> truthy v))
    \<longrightarrow> SocketDestroy \<in> set (on_upgrade fw handshake request)
        \<and> HandleUpgrade \<notin> set (on_upgrade fw handshake request)
        \<and> EmitConnection \<notin> set (on_upgrade fw handshake request)
        \<and> visible (on_upgrade fw handshake request) = [SocketDestroy])
   \<and> (upgradeAuthHandler fw = None
    \<longrightarrow> on_upgrade fw handshake request = handleUpgrade handshake request
        \<and> HandleUpgrade \<in> set (on_upgrade fw handshake request)
        \<and> SocketDestroy \<notin> set (on_upgrade fw handshake request))"
proof (intro conjI impI)
  assume a: "upgradeAuthHandler fw = Some h \<and>
      (h request = Inl err \<or> (h request = Inr v \<and> \<not> truthy v))"
  then have eff: "on_upgrade fw handshake request =
        [LoggerErrorWith ''[midway:ws] WebSocket upgrade authentication error:'' err, SocketDestroy]
      \<or> on_upgrade fw handshake request =
        [LoggerWarn ''[midway:ws] WebSocket upgrade authentication failed'', SocketDestroy]"
    by (auto simp: on_upgrade_def)
  from eff show "SocketDestroy \<in> set (on_upgrade fw handshake request)" by auto
  from eff show "HandleUpgrade \<notin> set (on_upgrade fw handshake request)" by auto
  from eff show "EmitConnection \<notin> set (on_upgrade fw handshake request)" by auto
  from eff show "visible (on_upgrade fw handshake request) = [SocketDestroy]"
    by (auto simp: visible_def)
next
  assume n: "upgradeAuthHandler fw = None"
  then show "on_upgrade fw handshake request = handleUpgrade handshake request"
    by (simp add: on_upgrade_def)
  from n show "HandleUpgrade \<in> set (on_upgrade fw handshake request)"
    by (simp add: on_upgrade_def handleUpgrade_def)
  from n show "SocketDestroy \<notin> set (on_upgrade fw handshake request)"
    by (simp add: on_upgrade_def handleUpgrade_def)
qed

theorem upgrade_gate_rejection_witness:
  "visible (on_upgrade \<lparr>upgradeAuthHandler = Some (\<lambda>r::nat. Inr (JNum 0))\<rparr> (\<lambda>r. True) 7)
     = [SocketDestroy]
   \<and> visible (on_upgrade \<lparr>upgradeAuthHandler = Some (\<lambda>r::nat. Inl (Thrown (JStr ''denied'')))\<rparr>
        (\<lambda>r. True) 7) = [SocketDestroy]
   \<and> on_upgrade (fst (onWebSocketUpgrade None initial_framework)) (\<lambda>r::nat. True) 7
       = [HandleUpgrade, EmitConnection]"
  using upgrade_gate_rejection [of "\<lparr>upgradeAuthHandler = Some (\<lambda>r::nat. Inr (JNum 0))\<rparr>"
          "\<lambda>r. Inr (JNum 0)" 7 "Thrown JNull" "JNum 0" "\<lambda>r. True"]
        upgrade_gate_rejection [of "\<lparr>upgradeAuthHandler = Some (\<lambda>r::nat. Inl (Thrown (JStr ''denied'')))\<rparr>"
          "\<lambda>r. Inl (Thrown (JStr ''denied''))" 7 "Thrown (JStr ''denied'')" "JNull" "\<lambda>r. True"]
        upgrade_gate_rejection [of "fst (onWebSocketUpgrade None initial_framework)"
          "\<lambda>r. Inr JNull" 7 "Thrown JNull" "JNull" "\<lambda>r::nat. True"]
  by (simp add: onWebSocketUpgrade_def initial_framework_def handleUpgrade_def)

subsection \<open>Response binder\<close>













text \<open>
  C10. A falsy result sends nothing, whatever the response table and the clients are:
  \<^verbatim>\<open>bindSocketResponse\<close> returns at once, and the connection's trace is left as it
  was. The falsy values include \<^verbatim>\<open>undefined\<close>, \<^verbatim>\<open>null\<close>, \<^verbatim>\<open>0\<close>, \<^verbatim>\<open>false\<close>,
  \<^verbatim>\<open>NaN\<close> and the empty string.
\<close>

theorem falsy_result_sends_nothing:
  "(\<not> truthy result \<longrightarrow>
      bindSocketResponse clients result socket name table = (Inr (), [])
      \<and> bind_response result name st = (Inr (), st))
   \<and> \<not> truthy JUndefined \<and> \<not> truthy JNull \<and> \<not> truthy (JNum 0) \<and> \<not> truthy (JBool False)
   \<and> \<not> truthy JNaN \<and> \<not> truthy (JStr [])"
  by (simp add: bindSocketResponse_def bind_response_def)

theorem falsy_result_sends_nothing_witness:
  "bindSocketResponse [\<lparr>cid = 1, readyState = OPEN, isAlive = Some True\<rparr>]
      (JNum 0) \<lparr>cid = 1, readyState = OPEN, isAlive = Some True\<rparr> ''onMessage''
      [''onMessage'' \<mapsto> Entry \<lparr>responseEvents =
         [\<lparr>propertyName = ''onMessage'', eventType = BROADCAST, messageEventName = [],
           middleware = ([] :: nat middleware list)\<rparr>]\<rparr>] = (Inr (), [])
   \<and> trace (snd (bind_response (JStr []) ''onMessage''
        (accepted \<lparr>cid = 1, readyState = OPEN, isAlive = Some True\<rparr>
           [\<lparr>cid = 1, readyState = OPEN, isAlive = Some True\<rparr>] (0::nat)))) = []"
  using falsy_result_sends_nothing [of "JNum 0"
      "[\<lparr>cid = 1, readyState = OPEN, isAlive = Some True\<rparr>]"
      "\<lparr>cid = 1, readyState = OPEN, isAlive = Some True\<rparr>" "''onMessage''"
      "[''onMessage'' \<mapsto> Entry \<lparr>responseEvents =
         [\<lparr>propertyName = ''onMessage'', eventType = BROADCAST, messageEventName = [],
           middleware = ([] :: nat middleware list)\<rparr>]\<rparr>]"
      "accepted \<lparr>cid = 1, readyState = OPEN, isAlive = Some True\<rparr> [] (0::nat)"]
    falsy_result_sends_nothing [of "JStr []"
      "[\<lparr>cid = 1, readyState = OPEN, isAlive = Some True\<rparr>]"
      "\<lparr>cid = 1, readyState = OPEN, isAlive = Some True\<rparr>" "''onMessage''"
      "Map.empty :: string \<rightharpoonup> nat slot"
      "accepted \<lparr>cid = 1, readyState = OPEN, isAlive = Some True\<rparr>
           [\<lparr>cid = 1, readyState = OPEN, isAlive = Some True\<rparr>] (0::nat)"]
  by (simp add: accepted_def)

subsection \<open>Dispatch: what the three kinds of event do\<close>

lemma on_connection_event_cases:
  "on_connection_event env info request st =
     (case on_connection_pipeline env info [JObject (cid (sock st)), request] (world st) of
        (Inl err, w') \<Rightarrow> (Inr (), st\<lparr>world := w', trace := trace st @ [LoggerError err]\<rparr>)
      | (Inr result, w') \<Rightarrow>
          (Inr (), st\<lparr>world := w', trace := trace st @
             logged_effects (bindSocketResponse (app_clients st) result (sock st)
               (propertyName info) (methodMap st))\<rparr>))"
  by (simp add: on_connection_event_def try_catch_def await_app_def logger_error_def
      bind_response_def logged_effects_def split: prod.splits sum.splits)

lemma close_listener_cases:
  "close_listener env info args st =
     (case controller env (propertyName info) [first_arg args] (world st) of
        (Inl err, w') \<Rightarrow> (Inr (), st\<lparr>world := w', trace := trace st @ [LoggerError err]\<rparr>)
      | (Inr result, w') \<Rightarrow>
          (Inr (), st\<lparr>world := w', trace := trace st @
             logged_effects (bindSocketResponse (app_clients st) result (sock st)
               (propertyName info) (methodMap st))\<rparr>))"
  by (simp add: close_listener_def try_catch_def await_app_def logger_error_def
      bind_response_def logged_effects_def split: prod.splits sum.splits)

lemma message_listener_raised:
  "message_pipeline env info args (world st) = (Inl err, w') \<Longrightarrow>
     message_listener env info args st =
       (Inr (), st\<lparr>world := w', trace := trace st @ [LoggerError err]\<rparr>)"
  by (simp add: message_listener_def try_catch_def await_app_def logger_error_def)

lemma message_listener_ack:
  "message_pipeline env info args (world st) = (Inr result, w') \<Longrightarrow>
   last_arg args = JFunction f \<Longrightarrow>
     message_listener env info args st =
       (case callFunction env f result w' of
          (Inl err, w'') \<Rightarrow>
            (Inr (), st\<lparr>world := w'', trace := trace st @ [Ack f result, LoggerError err]\<rparr>)
        | (Inr v, w'') \<Rightarrow>
            (Inr (), st\<lparr>world := w'', trace := trace st @ [Ack f result]\<rparr>))"
  by (simp add: message_listener_def try_catch_def await_app_def logger_error_def
      split: prod.splits sum.splits)

lemma message_listener_bound:
  "message_pipeline env info args (world st) = (Inr result, w') \<Longrightarrow>
   \<forall>f. last_arg args \<noteq> JFunction f \<Longrightarrow>
     message_listener env info args st =
       (Inr (), st\<lparr>world := w', trace := trace st @
          logged_effects (bindSocketResponse (app_clients st) result (sock st)
            (propertyName info) (methodMap st))\<rparr>)"
  by (cases rule: jsval.exhaust [of "last_arg args"])
     (simp_all add: message_listener_def try_catch_def await_app_def logger_error_def
      bind_response_def logged_effects_def split: prod.splits sum.splits)


lemma send_only_sends: "e \<in> set (snd (send s p)) \<Longrightarrow> \<exists>k q. e = Send k q"
  by (auto simp: send_def split: if_splits)

lemma and_then_effects:
  "e \<in> set (snd (and_then a b)) \<Longrightarrow> e \<in> set (snd a) \<or> e \<in> set (snd b)"
  by (auto simp: and_then_def split: prod.splits sum.splits)

lemma broadcast_only_sends: "e \<in> set (snd (broadcast cs p)) \<Longrightarrow> \<exists>k q. e = Send k q"
proof (induction cs)
  case Nil
  then show ?case by simp
next
  case (Cons c cs)
  then show ?case
    using and_then_effects [of e "send c p" "broadcast cs p"] send_only_sends [of e c p]
    by (auto split: if_splits)
qed

lemma respond_all_only_sends:
  "e \<in> set (snd (respond_all cs r s evs)) \<Longrightarrow> \<exists>k q. e = Send k q"
proof (induction evs)
  case Nil
  then show ?case by simp
next
  case (Cons d evs)
  have "e \<in> set (snd (respond cs r s d)) \<Longrightarrow> \<exists>k q. e = Send k q"
    using send_only_sends broadcast_only_sends by (auto simp: respond_def split: if_splits)
  then show ?case
    using Cons and_then_effects [of e "respond cs r s d" "respond_all cs r s evs"] by auto
qed

lemma bind_only_sends:
  "e \<in> set (snd (bindSocketResponse cs r s n m)) \<Longrightarrow> \<exists>k q. e = Send k q"
proof -
  assume a: "e \<in> set (snd (bindSocketResponse cs r s n m))"
  show ?thesis
  proof (cases rule: option.exhaust [of "get_property m n"])
    case None
    then show ?thesis using a send_only_sends
      by (auto simp: bindSocketResponse_def split: if_splits)
  next
    case (Some sl)
    note 2 = Some
    show ?thesis
    proof (cases sl)
      case (Entry entry)
      let ?tail = "if length (responseEvents entry) = 0 then send s (formatResult r)
                   else (Inr (), [])"
      have "e \<in> set (snd (and_then (respond_all cs r s (responseEvents entry)) ?tail))"
        using a 2 Entry by (simp add: bindSocketResponse_def split: if_splits)
      then have "e \<in> set (snd (respond_all cs r s (responseEvents entry)))
                 \<or> e \<in> set (snd ?tail)"
        by (rule and_then_effects)
      then show ?thesis
        using send_only_sends [of e s "formatResult r"]
          respond_all_only_sends [of e cs r s "responseEvents entry"]
        by (auto split: if_splits)
    next
      case Inherited
      then show ?thesis using a 2 by (auto simp: bindSocketResponse_def split: if_splits)
    qed
  qed
qed

lemma logged_no_terminate:
  "Terminate k \<notin> set (logged_effects (bindSocketResponse cs r s n m))"
proof -
  obtain r' es where b: "bindSocketResponse cs r s n m = (r', es)" by (cases rule: prod.exhaust)
  have "Terminate k \<notin> set es"
    using bind_only_sends [of "Terminate k" cs r s n m] b by auto
  then show ?thesis using b by (cases r') (simp_all add: logged_effects_def)
qed

lemma message_listener_frame:
  "fst (message_listener env info args st) = Inr ()
   \<and> sock (snd (message_listener env info args st)) = sock st
   \<and> listeners (snd (message_listener env info args st)) = listeners st
   \<and> methodMap (snd (message_listener env info args st)) = methodMap st
   \<and> app_clients (snd (message_listener env info args st)) = app_clients st
   \<and> (Terminate k \<in> set (trace (snd (message_listener env info args st)))
        \<longrightarrow> Terminate k \<in> set (trace st))"
proof -
  obtain r w' where p: "message_pipeline env info args (world st) = (r, w')"
    by (cases rule: prod.exhaust)
  show ?thesis
  proof (cases r)
    case (Inl err)
    then show ?thesis using message_listener_raised [of env info args st err w'] p by simp
  next
    case (Inr result)
    show ?thesis
    proof (cases rule: disjE [OF excluded_middle [of "\<exists>f. last_arg args = JFunction f"]])
      case 1
      then show ?thesis
        using message_listener_bound [of env info args st result w'] p Inr
        by (auto simp: logged_no_terminate)
    next
      case 2
      then obtain f where "last_arg args = JFunction f" by blast
      then show ?thesis
        using message_listener_ack [of env info args st result w' f] p Inr
        by (auto split: prod.splits sum.splits)
    qed
  qed
qed

lemma on_connection_event_frame:
  "fst (on_connection_event env info request st) = Inr ()
   \<and> sock (snd (on_connection_event env info request st)) = sock st
   \<and> listeners (snd (on_connection_event env info request st)) = listeners st
   \<and> methodMap (snd (on_connection_event env info request st)) = methodMap st
   \<and> app_clients (snd (on_connection_event env info request st)) = app_clients st
   \<and> (Terminate k \<in> set (trace (snd (on_connection_event env info request st)))
        \<longrightarrow> Terminate k \<in> set (trace st))"
  by (auto simp: on_connection_event_cases logged_no_terminate split: prod.splits sum.splits)

lemma close_listener_frame:
  "fst (close_listener env info args st) = Inr ()
   \<and> sock (snd (close_listener env info args st)) = sock st
   \<and> listeners (snd (close_listener env info args st)) = listeners st
   \<and> methodMap (snd (close_listener env info args st)) = methodMap st
   \<and> app_clients (snd (close_listener env info args st)) = app_clients st
   \<and> (Terminate k \<in> set (trace (snd (close_listener env info args st)))
        \<longrightarrow> Terminate k \<in> set (trace st))"
  by (auto simp: close_listener_cases logged_no_terminate split: prod.splits sum.splits)

lemma run_listener_frame:
  "fst (run_listener env l args st) = Inr ()
   \<and> cid (sock (snd (run_listener env l args st))) = cid (sock st)
   \<and> listeners (snd (run_listener env l args st)) = listeners st
   \<and> methodMap (snd (run_listener env l args st)) = methodMap st
   \<and> app_clients (snd (run_listener env l args st)) = app_clients st
   \<and> (Terminate k \<in> set (trace (snd (run_listener env l args st)))
        \<longrightarrow> Terminate k \<in> set (trace st))"
proof (cases l)
  case ErrorListener
  then show ?thesis by simp
next
  case PongListener
  then show ?thesis by (simp add: pong_listener_def)
next
  case (MessageListener info)
  then show ?thesis using message_listener_frame [of env info args st k] by simp
next
  case (CloseListener info)
  then show ?thesis using close_listener_frame [of env info args st k] by simp
qed

lemma run_listeners_frame:
  "cid (sock (run_listeners env ls args st)) = cid (sock st)
   \<and> listeners (run_listeners env ls args st) = listeners st
   \<and> methodMap (run_listeners env ls args st) = methodMap st
   \<and> app_clients (run_listeners env ls args st) = app_clients st
   \<and> (Terminate k \<in> set (trace (run_listeners env ls args st))
        \<longrightarrow> Terminate k \<in> set (trace st))"
proof (induction ls arbitrary: st)
  case Nil
  then show ?case by simp
next
  case (Cons a ls)
  obtain n l where a: "a = (n, l)" by (cases rule: prod.exhaust)
  show ?case
    using Cons.IH [of "snd (run_listener env l args st)"] run_listener_frame [of env l args st k] a
    by simp
qed

lemma socket_emit_frame:
  "cid (sock (socket_emit env name args st)) = cid (sock st)
   \<and> listeners (socket_emit env name args st) = listeners st
   \<and> methodMap (socket_emit env name args st) = methodMap st
   \<and> app_clients (socket_emit env name args st) = app_clients st
   \<and> (Terminate k \<in> set (trace (socket_emit env name args st))
        \<longrightarrow> Terminate k \<in> set (trace st))"
  using run_listeners_frame [of env "listeners_for name st" args st k]
  by (simp add: socket_emit_def)

lemma deliver_frame:
  "cid (sock (deliver env evs st)) = cid (sock st)
   \<and> listeners (deliver env evs st) = listeners st
   \<and> methodMap (deliver env evs st) = methodMap st
   \<and> app_clients (deliver env evs st) = app_clients st
   \<and> (Terminate k \<in> set (trace (deliver env evs st))
        \<longrightarrow> Terminate k \<in> set (trace st))"
proof (induction evs arbitrary: st)
  case Nil
  then show ?case by simp
next
  case (Cons a evs)
  obtain name args where a: "a = (name, args)" by (cases rule: prod.exhaust)
  show ?case
    using Cons.IH [of "socket_emit env name args st"] socket_emit_frame [of env name args st k] a
    by simp
qed

lemma on_connection_event_returns:
  "fst (on_connection_event env info request st) = Inr ()"
  by (simp add: on_connection_event_cases split: prod.splits sum.splits)

text \<open>
  C3, as stated, fails: not every failure raised by handler code is logged at the dispatch
  boundary. A middleware in front of the handler may handle the failure; then the
  pipeline returns normally, the \<^verbatim>\<open>catch\<close> of the dispatch is not entered and nothing
  is logged. Here the handler \<^verbatim>\<open>fail\<close> is called and raises, behind such a middleware
  of the framework.
\<close>

theorem handled_failure_is_not_logged_counterexample:
  "message_listener (demo_env\<lparr>frameworkMiddleware := [swallow]\<rparr>)
      (descriptor ''fail'' ON_MESSAGE ''message'') [JStr ''hi'']
      (accepted demo_socket [demo_socket] [])
    = (Inr (), (accepted demo_socket [demo_socket] [])\<lparr>world := [''fail''], trace := []\<rparr>)"
  by (simp add: message_listener_def try_catch_def await_app_def message_pipeline_def
      applyMiddleware_def swallow_def demo_env_def descriptor_def accepted_def last_arg_def
      bind_response_def bindSocketResponse_def resolve_undefined_def)

text \<open>
  C3, amended. A failure that comes out of the pipeline of an on-connect, on-message or
  on-disconnect dispatch (raised by the handler or by a middleware, and not handled by a
  middleware in front of it) is logged and goes no further: the dispatch returns
  normally, with the failure appended to the log and the connection (socket, listeners,
  response table) as it was. That is so for every failure of an on-disconnect handler,
  of an on-connect handler without middleware of its own, and of a message handler with
  no middleware in front of it. No dispatch ever ends in a failure; an emitted event
  leaves the registered listeners in place, so a message listener runs again at the next
  event of its name; and no dispatch terminates a connection.
\<close>

theorem handler_failures_are_contained:
  "(on_connection_pipeline env info [JObject (cid (sock st)), request] (world st) = (Inl err, w')
      \<longrightarrow> on_connection_event env info request st =
            (Inr (), st\<lparr>world := w', trace := trace st @ [LoggerError err]\<rparr>))
   \<and> (message_pipeline env info args (world st) = (Inl err, w')
      \<longrightarrow> message_listener env info args st =
            (Inr (), st\<lparr>world := w', trace := trace st @ [LoggerError err]\<rparr>))
   \<and> (controller env (propertyName info) [first_arg args] (world st) = (Inl err, w')
      \<longrightarrow> close_listener env info args st =
            (Inr (), st\<lparr>world := w', trace := trace st @ [LoggerError err]\<rparr>))
   \<and> (middleware info = [] \<and> runGuard env (propertyName info) (world st) = (Inr True, w1)
        \<and> controller env (propertyName info) [JObject (cid (sock st)), request] w1 = (Inl err, w')
      \<longrightarrow> on_connection_event env info request st =
            (Inr (), st\<lparr>world := w', trace := trace st @ [LoggerError err]\<rparr>))
   \<and> (frameworkMiddleware env = [] \<and> controllerMiddleware env = [] \<and> middleware info = []
        \<and> controller env (propertyName info) args (world st) = (Inl err, w')
      \<longrightarrow> message_listener env info args st =
            (Inr (), st\<lparr>world := w', trace := trace st @ [LoggerError err]\<rparr>))
   \<and> fst (on_connection_event env info request st) = Inr ()
   \<and> fst (message_listener env info args st) = Inr ()
   \<and> fst (close_listener env info args st) = Inr ()
   \<and> listeners (socket_emit env name args st) = listeners st
   \<and> (Terminate k \<in> set (trace (socket_emit env name args st))
        \<longrightarrow> Terminate k \<in> set (trace st))
   \<and> (Terminate k \<in> set (trace (snd (on_connection_event env info request st)))
        \<longrightarrow> Terminate k \<in> set (trace st))"
proof -
  have c: "on_connection_pipeline env info [JObject (cid (sock st)), request] (world st)
             = (Inl err, w')
      \<longrightarrow> on_connection_event env info request st =
            (Inr (), st\<lparr>world := w', trace := trace st @ [LoggerError err]\<rparr>)"
    by (simp add: on_connection_event_cases)
  have m: "message_pipeline env info args (world st) = (Inl err, w')
      \<longrightarrow> message_listener env info args st =
            (Inr (), st\<lparr>world := w', trace := trace st @ [LoggerError err]\<rparr>)"
    by (simp add: message_listener_raised)
  have d: "controller env (propertyName info) [first_arg args] (world st) = (Inl err, w')
      \<longrightarrow> close_listener env info args st =
            (Inr (), st\<lparr>world := w', trace := trace st @ [LoggerError err]\<rparr>)"
    by (simp add: close_listener_cases)
  have c': "middleware info = [] \<and> runGuard env (propertyName info) (world st) = (Inr True, w1)
        \<and> controller env (propertyName info) [JObject (cid (sock st)), request] w1 = (Inl err, w')
      \<longrightarrow> on_connection_event env info request st =
            (Inr (), st\<lparr>world := w', trace := trace st @ [LoggerError err]\<rparr>)"
    by (simp add: on_connection_event_cases on_connection_pipeline_def guarded_invoke_def)
  have m': "frameworkMiddleware env = [] \<and> controllerMiddleware env = [] \<and> middleware info = []
        \<and> controller env (propertyName info) args (world st) = (Inl err, w')
      \<longrightarrow> message_listener env info args st =
            (Inr (), st\<lparr>world := w', trace := trace st @ [LoggerError err]\<rparr>)"
    by (simp add: message_listener_raised message_pipeline_def applyMiddleware_def)
  note f1 = on_connection_event_frame [of env info request st k]
  note f2 = message_listener_frame [of env info args st k]
  note f3 = close_listener_frame [of env info args st k]
  note f5 = socket_emit_frame [of env name args st k]
  from c m d c' m' f1 f2 f3 f5 show ?thesis by blast
qed

theorem handler_failures_are_contained_witness:
  "message_listener demo_env (descriptor ''fail'' ON_MESSAGE ''message'') [JStr ''hi'']
      (register ''message'' (MessageListener (descriptor ''fail'' ON_MESSAGE ''message''))
         (accepted demo_socket [demo_socket] []))
    = (Inr (),
       (register ''message'' (MessageListener (descriptor ''fail'' ON_MESSAGE ''message''))
         (accepted demo_socket [demo_socket] []))
       \<lparr>world := [''fail''], trace := [LoggerError (Thrown (JStr ''boom''))]\<rparr>)
   \<and> trace (socket_emit demo_env ''message'' [JStr ''again'']
        (socket_emit demo_env ''message'' [JStr ''hi'']
          (register ''message'' (MessageListener (descriptor ''fail'' ON_MESSAGE ''message''))
             (accepted demo_socket [demo_socket] []))))
      = [LoggerError (Thrown (JStr ''boom'')), LoggerError (Thrown (JStr ''boom''))]"
proof -
  let ?info = "descriptor ''fail'' ON_MESSAGE ''message''"
  let ?st = "register ''message'' (MessageListener ?info) (accepted demo_socket [demo_socket] [])"
  have p: "frameworkMiddleware demo_env = [] \<and> controllerMiddleware demo_env = []
        \<and> middleware ?info = []
        \<and> controller demo_env (propertyName ?info) [JStr ''hi''] (world ?st)
             = (Inl (Thrown (JStr ''boom'')), [''fail''])"
    by (simp add: demo_env_def descriptor_def register_def accepted_def)
  have one: "message_listener demo_env ?info [JStr ''hi''] ?st =
      (Inr (), ?st\<lparr>world := [''fail''], trace := trace ?st @ [LoggerError (Thrown (JStr ''boom''))]\<rparr>)"
    using handler_failures_are_contained [where env = demo_env and info = ?info
        and st = ?st and args = "[JStr ''hi'']" and err = "Thrown (JStr ''boom'')"
        and w' = "[''fail'']"] p
    by blast
  have t: "trace ?st = []" by (simp add: register_def accepted_def)
  have two: "trace (socket_emit demo_env ''message'' [JStr ''again'']
        (socket_emit demo_env ''message'' [JStr ''hi''] ?st))
      = [LoggerError (Thrown (JStr ''boom'')), LoggerError (Thrown (JStr ''boom''))]"
    by (simp add: socket_emit_def listeners_for_def register_def accepted_def
        message_listener_def try_catch_def await_app_def logger_error_def
        message_pipeline_def applyMiddleware_def demo_env_def descriptor_def)
  from one t two show ?thesis by simp
qed

text \<open>
  C6. When the last argument of a message event is a callable, the pipeline's result is
  passed to that callable and the dispatch does nothing else but log a failure of the
  callable: \<^verbatim>\<open>bindSocketResponse\<close> is not reached. The dispatch sends nothing to any
  connection, and its effects are the same whatever the response table holds and whoever
  the clients are.
\<close>

theorem ack_bypasses_response_binder:
  assumes "last_arg args = JFunction f"
  shows "(message_pipeline env info args (world st) = (Inr result, w') \<longrightarrow>
            message_listener env info args st =
              (case callFunction env f result w' of
                 (Inl err, w'') \<Rightarrow>
                   (Inr (), st\<lparr>world := w'',
                               trace := trace st @ [Ack f result, LoggerError err]\<rparr>)
               | (Inr v, w'') \<Rightarrow>
                   (Inr (), st\<lparr>world := w'', trace := trace st @ [Ack f result]\<rparr>)))
       \<and> (Send k p \<in> set (trace (snd (message_listener env info args st)))
            \<longrightarrow> Send k p \<in> set (trace st))
       \<and> trace (snd (message_listener env info args (st\<lparr>methodMap := table, app_clients := cs\<rparr>)))
           = trace (snd (message_listener env info args st))"
proof -
  obtain r v where p: "message_pipeline env info args (world st) = (r, v)"
    by (cases rule: prod.exhaust)
  let ?st' = "st\<lparr>methodMap := table, app_clients := cs\<rparr>"
  have p': "message_pipeline env info args (world ?st') = (r, v)" using p by simp
  have first: "message_pipeline env info args (world st) = (Inr result, w') \<longrightarrow>
            message_listener env info args st =
              (case callFunction env f result w' of
                 (Inl err, w'') \<Rightarrow>
                   (Inr (), st\<lparr>world := w'',
                               trace := trace st @ [Ack f result, LoggerError err]\<rparr>)
               | (Inr v, w'') \<Rightarrow>
                   (Inr (), st\<lparr>world := w'', trace := trace st @ [Ack f result]\<rparr>))"
    using assms by (simp add: message_listener_ack)
  have rest: "(Send k p \<in> set (trace (snd (message_listener env info args st)))
            \<longrightarrow> Send k p \<in> set (trace st))
       \<and> trace (snd (message_listener env info args ?st'))
           = trace (snd (message_listener env info args st))"
  proof (cases r)
    case (Inl err)
    then show ?thesis
      using message_listener_raised [of env info args st err v]
        message_listener_raised [of env info args ?st' err v] p p' by simp
  next
    case (Inr res)
    then show ?thesis
      using message_listener_ack [of env info args st res v f]
        message_listener_ack [of env info args ?st' res v f] p p' assms
      by (auto split: prod.splits sum.splits)
  qed
  from first rest show ?thesis by blast
qed

theorem ack_bypasses_response_binder_witness:
  "message_listener demo_env (descriptor ''echo'' ON_MESSAGE ''message'')
      [JStr ''hi'', JFunction 9]
      ((accepted demo_socket [demo_socket] [])
         \<lparr>methodMap := [''echo'' \<mapsto> Entry \<lparr>responseEvents = [descriptor ''echo'' BROADCAST []]\<rparr>]\<rparr>)
    = (Inr (),
       (accepted demo_socket [demo_socket] [])
         \<lparr>methodMap := [''echo'' \<mapsto> Entry \<lparr>responseEvents = [descriptor ''echo'' BROADCAST []]\<rparr>],
          world := [''echo'', ''ack''], trace := [Ack 9 (JStr ''ok'')]\<rparr>)"
proof -
  let ?info = "descriptor ''echo'' ON_MESSAGE ''message''"
  let ?st = "(accepted demo_socket [demo_socket] [])
         \<lparr>methodMap := [''echo'' \<mapsto> Entry \<lparr>responseEvents = [descriptor ''echo'' BROADCAST []]\<rparr>]\<rparr>"
  have l: "last_arg [JStr ''hi'', JFunction 9] = JFunction 9" by (simp add: last_arg_def)
  have p: "message_pipeline demo_env ?info [JStr ''hi'', JFunction 9] (world ?st)
             = (Inr (JStr ''ok''), [''echo''])"
    by (simp add: message_pipeline_def applyMiddleware_def demo_env_def descriptor_def
        accepted_def)
  have c: "callFunction demo_env 9 (JStr ''ok'') [''echo''] = (Inr JUndefined, [''echo'', ''ack''])"
    by (simp add: demo_env_def)
  show ?thesis
    using ack_bypasses_response_binder [OF l, where env = demo_env and info = ?info
        and st = ?st and result = "JStr ''ok''" and w' = "[''echo'']"] p c
    by (simp add: accepted_def)
qed


text \<open>
  C7. When the guard refuses an on-connect method, the last middleware of the pipeline
  raises \<^verbatim>\<open>MidwayInvokeForbiddenError\<close> for that method, whatever the controller is:
  the handler is not called (where the guard always refuses, the whole dispatch is the
  same for every controller). The failure, once it comes out of the pipeline (as it does
  when the descriptor has no middleware of its own), is logged, the dispatch returns
  normally with the connection as it was, and the descriptor loop goes on.
\<close>



subsection \<open>Connection setup: the descriptor loop\<close>

lemma later_drop: "later arrivals = drop 1 arrivals"
  by (cases arrivals) (simp_all add: later_def)

lemma init_entry_fields:
  "sock (init_entry name st) = sock st"
  "listeners (init_entry name st) = listeners st"
  "app_clients (init_entry name st) = app_clients st"
  "world (init_entry name st) = world st"
  "trace (init_entry name st) = trace st"
  "methodMap (init_entry name st) = (methodMap st)(name \<mapsto> slot_or_new (methodMap st) name)"
  by (simp_all add: init_entry_def)

lemma responses_before_absent:
  "name \<notin> propertyName ` set pre \<Longrightarrow> responses_before name pre = []"
  by (auto simp: responses_before_def filter_empty_conv)

lemma push_response_fields:
  "push_response d st = (r, st') \<Longrightarrow>
     sock st' = sock st \<and> listeners st' = listeners st \<and> app_clients st' = app_clients st
     \<and> world st' = world st \<and> trace st' = trace st"
  by (auto simp: push_response_def split: option.splits slot.splits)

lemma process_descriptor_failed:
  assumes "getAsync env (world (deliver env during (init_entry (propertyName d) st))) = (Inl err, w)"
  shows "process_descriptor env request d during st =
           (Inl err, (deliver env during (init_entry (propertyName d) st))\<lparr>world := w\<rparr>)"
  using assms by (simp add: process_descriptor_def await_app_def)

lemma process_descriptor_resolved:
  assumes "getAsync env (world (deliver env during (init_entry (propertyName d) st))) = (Inr (), w)"
  shows "process_descriptor env request d during st =
     (let st1 = (deliver env during (init_entry (propertyName d) st))\<lparr>world := w\<rparr> in
      if eventType d = ON_CONNECTION then on_connection_event env d request st1
      else if eventType d = ON_MESSAGE
      then (Inr (), register (messageEventName d) (MessageListener d) st1)
      else if eventType d = ON_DISCONNECTION
      then (Inr (), register ''close'' (CloseListener d) st1)
      else push_response d st1)"
  using assms by (simp add: process_descriptor_def await_app_def Let_def)

lemma process_descriptor_listeners:
  assumes "process_descriptor env request d during st = (r, st')"
  shows "listeners st' = listeners st @ (case r of Inl err \<Rightarrow> [] | Inr u \<Rightarrow> registration d)"
proof -
  let ?st0 = "deliver env during (init_entry (propertyName d) st)"
  have l0: "listeners ?st0 = listeners st"
    using deliver_frame [of env during "init_entry (propertyName d) st"]
    by (simp add: init_entry_fields)
  obtain g w where g: "getAsync env (world ?st0) = (g, w)" by (cases rule: prod.exhaust)
  show ?thesis
  proof (cases g)
    case (Inl err)
    then show ?thesis using assms g l0 process_descriptor_failed [of env during d st err w]
      by auto
  next
    case (Inr u)
    let ?st1 = "?st0\<lparr>world := w\<rparr>"
    note p = process_descriptor_resolved [of env during d st w request]
    show ?thesis
    proof (cases rule: WSEventTypeEnum.exhaust [of "eventType d"])
      case ON_CONNECTION
      then show ?thesis
        using assms g Inr p l0 on_connection_event_frame [of env d request ?st1]
        by (auto simp: Let_def registration_def)
    next
      case ON_MESSAGE
      then show ?thesis using assms g Inr p l0
        by (auto simp: Let_def registration_def register_def)
    next
      case ON_DISCONNECTION
      then show ?thesis using assms g Inr p l0
        by (auto simp: Let_def registration_def register_def)
    next
      case EMIT
      then show ?thesis
        using assms g Inr p l0 push_response_fields [of d ?st1 r st']
        by (cases r) (auto simp: Let_def registration_def)
    next
      case BROADCAST
      then show ?thesis
        using assms g Inr p l0 push_response_fields [of d ?st1 r st']
        by (cases r) (auto simp: Let_def registration_def)
    qed
  qed
qed

lemma descriptors_loop_append:
  "descriptors_loop env request (xs @ ys) arrivals st =
     (case descriptors_loop env request xs arrivals st of
        (Inl err, st') \<Rightarrow> (Inl err, st')
      | (Inr u, st') \<Rightarrow> descriptors_loop env request ys (drop (length xs) arrivals) st')"
proof (induction xs arbitrary: arrivals st)
  case Nil
  then show ?case by simp
next
  case (Cons x xs)
  obtain r st' where p: "process_descriptor env request x (arrived arrivals) st = (r, st')"
    by (cases rule: prod.exhaust)
  show ?case
  proof (cases r)
    case (Inl err)
    then show ?thesis using p by simp
  next
    case (Inr u)
    have dd: "drop (length xs) (later arrivals) = drop (length (x # xs)) arrivals"
      by (simp add: later_drop)
    show ?thesis using Cons.IH [of "later arrivals" st', unfolded dd] p Inr by simp
  qed
qed

lemma descriptors_loop_listeners:
  "descriptors_loop env request ds arrivals st = (r, st') \<Longrightarrow>
     (case r of
        Inr u \<Rightarrow> listeners st' = listeners st @ registrations ds
      | Inl err \<Rightarrow> \<exists>k < length ds. listeners st' = listeners st @ registrations (take k ds))"
proof (induction ds arbitrary: arrivals st)
  case Nil
  then show ?case by (auto simp: registrations_def)
next
  case (Cons x xs)
  obtain r1 st1 where p: "process_descriptor env request x (arrived arrivals) st = (r1, st1)"
    by (cases rule: prod.exhaust)
  note l = process_descriptor_listeners [OF p]
  show ?case
  proof (cases r1)
    case (Inl err)
    then have "r = Inl err" "st' = st1" using Cons.prems p by auto
    then show ?thesis using l Inl by (auto simp: registrations_def intro: exI [of _ 0])
  next
    case (Inr u)
    then have rest: "descriptors_loop env request xs (later arrivals) st1 = (r, st')"
      using Cons.prems p by simp
    note ih = Cons.IH [OF rest]
    show ?thesis
    proof (cases r)
      case (Inl err)
      then obtain k where k: "k < length xs"
          "listeners st' = listeners st1 @ registrations (take k xs)"
        using ih by auto
      then have "Suc k < length (x # xs)
          \<and> listeners st' = listeners st @ registrations (take (Suc k) (x # xs))"
        using l \<open>r1 = Inr u\<close> by (simp add: registrations_def)
      then have "\<exists>j < length (x # xs).
          listeners st' = listeners st @ registrations (take j (x # xs))"
        by blast
      then show ?thesis using Inl by simp
    next
      case (Inr v)
      then show ?thesis using ih l \<open>r1 = Inr u\<close> by (simp add: registrations_def)
    qed
  qed
qed


lemma responses_before_snoc:
  "responses_before name (pre @ [d]) =
     responses_before name pre @ (if propertyName d = name \<and> is_response d then [d] else [])"
  by (simp add: responses_before_def)

lemma slot_or_new_expected:
  assumes "\<forall>n. get_property m n = expected_slot pre n"
  shows "slot_or_new m name =
     (if name \<in> set object_prototype_names then Inherited
      else Entry \<lparr>responseEvents = responses_before name pre\<rparr>)"
  using assms [rule_format, of name] responses_before_absent [of name pre]
  by (auto simp: slot_or_new_def expected_slot_def)

lemma get_property_upd:
  "get_property (m(k \<mapsto> s)) n = (if n = k then Some s else get_property m n)"
  by (simp add: get_property_def)

lemma process_descriptor_slots:
  assumes p: "process_descriptor env request d during st = (Inr u, st')"
    and inv: "\<forall>n. get_property (methodMap st) n = expected_slot pre n"
  shows "\<forall>n. get_property (methodMap st') n = expected_slot (pre @ [d]) n"
proof
  fix n
  let ?pn = "propertyName d"
  let ?st0 = "deliver env during (init_entry ?pn st)"
  let ?slot = "if ?pn \<in> set object_prototype_names then Inherited
               else Entry \<lparr>responseEvents = responses_before ?pn pre\<rparr>"
  have m0: "methodMap ?st0 = (methodMap st)(?pn \<mapsto> ?slot)"
    using deliver_frame [of env during "init_entry ?pn st"] slot_or_new_expected [OF inv, of ?pn]
    by (simp add: init_entry_fields)
  obtain g w where g: "getAsync env (world ?st0) = (g, w)" by (cases rule: prod.exhaust)
  have gr: "g = Inr ()"
  proof (cases g)
    case (Inl err)
    then show ?thesis using p g process_descriptor_failed [of env during d st err w] by simp
  next
    case (Inr v)
    then show ?thesis by simp
  qed
  let ?st1 = "?st0\<lparr>world := w\<rparr>"
  note r = process_descriptor_resolved [of env during d st w request]
  have before: "get_property (methodMap ?st1) n =
      (if n = ?pn then Some ?slot else expected_slot pre n)"
    using inv by (simp add: m0 get_property_upd)
  have other: "n \<noteq> ?pn \<Longrightarrow> expected_slot (pre @ [d]) n = expected_slot pre n"
    by (auto simp: expected_slot_def responses_before_snoc)
  show "get_property (methodMap st') n = expected_slot (pre @ [d]) n"
  proof (cases rule: disjE [OF excluded_middle [of "is_response d"]])
    case 1
    then have same: "methodMap st' = methodMap ?st1"
      using p g gr r on_connection_event_frame [of env d request ?st1]
      by (cases rule: WSEventTypeEnum.exhaust [of "eventType d"])
         (auto simp: Let_def is_response_def register_def)
    have "expected_slot (pre @ [d]) ?pn = Some ?slot"
      using 1 by (auto simp: expected_slot_def responses_before_snoc)
    then show ?thesis using same before other by auto
  next
    case 2
    then have push: "push_response d ?st1 = (Inr u, st')"
      using p g gr r by (auto simp: Let_def is_response_def)
    have own: "get_property (methodMap ?st1) ?pn = Some ?slot"
      by (simp add: m0 get_property_upd)
    have notinh: "?pn \<notin> set object_prototype_names"
      using push own by (auto simp: push_response_def split: if_splits)
    then have m': "methodMap st' = (methodMap ?st1)(?pn \<mapsto>
        Entry \<lparr>responseEvents = responses_before ?pn pre @ [d]\<rparr>)"
      using push own by (auto simp: push_response_def)
    have "expected_slot (pre @ [d]) ?pn =
        Some (Entry \<lparr>responseEvents = responses_before ?pn pre @ [d]\<rparr>)"
      using 2 notinh by (auto simp: expected_slot_def responses_before_snoc)
    then show ?thesis using m' before other by (auto simp: get_property_upd)
  qed
qed

lemma descriptors_loop_slots:
  "descriptors_loop env request pre arrivals st = (Inr u, st1) \<Longrightarrow>
   methodMap st = Map.empty \<Longrightarrow>
     \<forall>n. get_property (methodMap st1) n = expected_slot pre n"
proof (induction pre arbitrary: st1 u rule: rev_induct)
  case Nil
  then show ?case by (auto simp: get_property_def expected_slot_def)
next
  case (snoc d pre)
  obtain r0 st0 where l: "descriptors_loop env request pre arrivals st = (r0, st0)"
    by (cases rule: prod.exhaust)
  have split: "descriptors_loop env request (pre @ [d]) arrivals st =
     (case (r0, st0) of
        (Inl err, st') \<Rightarrow> (Inl err, st')
      | (Inr u, st') \<Rightarrow> descriptors_loop env request [d] (drop (length pre) arrivals) st')"
    using descriptors_loop_append [of env request pre "[d]" arrivals st] l by simp
  show ?case
  proof (cases r0)
    case (Inl err)
    then show ?thesis using split snoc.prems(1) by simp
  next
    case (Inr v)
    then have step: "descriptors_loop env request [d] (drop (length pre) arrivals) st0 = (Inr u, st1)"
      using split snoc.prems(1) by simp
    have inv: "\<forall>n. get_property (methodMap st0) n = expected_slot pre n"
      using snoc.IH [of v st0] l Inr snoc.prems(2) by simp
    obtain r2 st2 where p: "process_descriptor env request d
        (arrived (drop (length pre) arrivals)) st0 = (r2, st2)"
      by (cases rule: prod.exhaust)
    then have "r2 = Inr u \<and> st2 = st1" using step by (cases r2) auto
    then show ?thesis using process_descriptor_slots [OF _ inv, of env request d _ u st1] p
      by simp
  qed
qed


lemma bind_cong:
  "get_property table name = get_property table' name \<Longrightarrow>
     bindSocketResponse cs r s name table = bindSocketResponse cs r s name table'"
  by (simp add: bindSocketResponse_def)

text \<open>
  C9. The response policy of an on-connect handler depends on the declaration order. When
  the loop has gone through the descriptors \<open>pre\<close> and reaches an on-connect descriptor
  \<open>d\<close> whose controller resolves, what the response table holds for its method are the
  response-policy descriptors of that method among \<open>pre\<close> and none of those declared
  after \<open>d\<close> (for a method name that a plain object inherits, the inherited value): what
  the dispatch adds to the trace is what \<^verbatim>\<open>bindSocketResponse\<close> does with that entry,
  and the rest of the loop runs from the state the dispatch leaves. When no
  response-policy descriptor of the method precedes \<open>d\<close>, a truthy result is handed to one
  send to the originating connection alone, whatever is declared later.
\<close>

theorem on_connect_sees_earlier_responses_only:
  assumes "eventType d = ON_CONNECTION"
    and "methodMap st = Map.empty"
    and "descriptors_loop env request pre arrivals st = (Inr u, reached)"
    and "getAsync env (world (deliver env (arrived (drop (length pre) arrivals))
                                (init_entry (propertyName d) reached))) = (Inr (), wc)"
    and "here = (deliver env (arrived (drop (length pre) arrivals))
                 (init_entry (propertyName d) reached))\<lparr>world := wc\<rparr>"
    and "slot = (if propertyName d \<in> set object_prototype_names then Inherited
                 else Entry \<lparr>responseEvents = responses_before (propertyName d) pre\<rparr>)"
  shows "descriptors_loop env request (pre @ d # post) arrivals st =
           descriptors_loop env request post (drop (Suc (length pre)) arrivals)
             (snd (on_connection_event env d request here))
       \<and> get_property (methodMap here) (propertyName d) = Some slot
       \<and> (on_connection_pipeline env d [JObject (cid (sock here)), request] (world here)
             = (Inr result, w') \<longrightarrow>
            trace (snd (on_connection_event env d request here)) =
              trace here @ logged_effects
                (bindSocketResponse (app_clients here) result (sock here) (propertyName d)
                   [propertyName d \<mapsto> slot]))
       \<and> (on_connection_pipeline env d [JObject (cid (sock here)), request] (world here)
             = (Inr result, w') \<and> truthy result \<and> responses_before (propertyName d) pre = []
             \<and> propertyName d \<notin> set object_prototype_names
            \<longrightarrow> trace (snd (on_connection_event env d request here)) =
              trace here @ logged_effects (send (sock here) (formatResult result)))"
proof -
  let ?name = "propertyName d"
  let ?during = "arrived (drop (length pre) arrivals)"
  let ?st0 = "deliver env ?during (init_entry ?name reached)"
  have step: "process_descriptor env request d ?during reached = on_connection_event env d request here"
    using process_descriptor_resolved [OF assms(4), of request] assms(1,5) by (simp add: Let_def)
  have ret: "fst (on_connection_event env d request here) = Inr ()"
    by (rule on_connection_event_returns)
  have split: "descriptors_loop env request (pre @ d # post) arrivals st =
           descriptors_loop env request post (drop (Suc (length pre)) arrivals)
             (snd (on_connection_event env d request here))"
  proof -
    obtain r st' where o: "on_connection_event env d request here = (r, st')"
      by (cases rule: prod.exhaust)
    then have "r = Inr ()" using ret by simp
    then show ?thesis
      using descriptors_loop_append [of env request pre "d # post" arrivals st] assms(3) step o
      by (simp add: later_drop)
  qed
  have inv: "\<forall>n. get_property (methodMap reached) n = expected_slot pre n"
    using descriptors_loop_slots [OF assms(3,2)] .
  have m2: "get_property (methodMap here) ?name = Some slot"
    using deliver_frame [of env ?during "init_entry ?name reached"] assms(5,6)
      slot_or_new_expected [OF inv, of ?name]
    by (simp add: init_entry_fields get_property_upd)
  have bound: "trace (snd (on_connection_event env d request here)) =
              trace here @ logged_effects
                (bindSocketResponse (app_clients here) result (sock here) ?name [?name \<mapsto> slot])"
    if "on_connection_pipeline env d [JObject (cid (sock here)), request] (world here)
             = (Inr result, w')"
  proof -
    have "get_property (methodMap here) ?name = get_property [?name \<mapsto> slot] ?name"
      using m2 by (simp add: get_property_def)
    then have "bindSocketResponse (app_clients here) result (sock here) ?name (methodMap here)
        = bindSocketResponse (app_clients here) result (sock here) ?name [?name \<mapsto> slot]"
      by (rule bind_cong)
    then show ?thesis using that by (simp add: on_connection_event_cases)
  qed
  have fallback: "trace (snd (on_connection_event env d request here)) =
              trace here @ logged_effects (send (sock here) (formatResult result))"
    if "on_connection_pipeline env d [JObject (cid (sock here)), request] (world here)
             = (Inr result, w') \<and> truthy result \<and> responses_before ?name pre = []
             \<and> ?name \<notin> set object_prototype_names"
    using that bound assms(6)
    by (simp add: bindSocketResponse_def get_property_def and_then_def split: prod.splits sum.splits)
  from split m2 bound fallback show ?thesis by blast
qed

lemmas demo_simps = demo_env_def demo_env_auth_def auth_middleware_def descriptor_def
  demo_socket_def other_socket_def accepted_def

lemmas model_simps = process_descriptor_def Let_def init_entry_def slot_or_new_def
  get_property_def object_prototype_names_def push_response_def register_def arrived_def
  later_def on_connection_event_cases on_connection_pipeline_def guarded_invoke_def
  resolve_undefined_def bindSocketResponse_def respond_def formatResult_def send_def
  and_then_def logged_effects_def socket_emit_def listeners_for_def on_connection_def
  await_app_def

theorem on_connect_sees_earlier_responses_only_witness:
  "trace (snd (descriptors_loop demo_env (JObject 0)
      [descriptor ''open'' ON_CONNECTION [], descriptor ''open'' BROADCAST []] []
      (accepted demo_socket [demo_socket, other_socket] [])))
     = [Send 1 (AsIs (JStr ''ok''))]
   \<and> trace (snd (descriptors_loop demo_env (JObject 0)
      [descriptor ''open'' BROADCAST [], descriptor ''open'' ON_CONNECTION []] []
      (accepted demo_socket [demo_socket, other_socket] [])))
     = [Send 1 (AsIs (JStr ''ok'')), Send 2 (AsIs (JStr ''ok''))]"
proof -
  let ?d = "descriptor ''open'' ON_CONNECTION []"
  let ?b = "descriptor ''open'' BROADCAST []"
  let ?base = "accepted demo_socket [demo_socket, other_socket] ([] :: string list)"
  let ?nil = "[] :: string list WSEventInfo list"
  let ?susp = "deliver demo_env (arrived (drop (length ?nil) [])) (init_entry (propertyName ?d) ?base)"
  let ?run = "?susp\<lparr>world := []\<rparr>"
  let ?slot = "(if propertyName ?d \<in> set object_prototype_names then Inherited
                 else Entry \<lparr>responseEvents = responses_before (propertyName ?d) ?nil\<rparr>)"
  have k: "eventType ?d = ON_CONNECTION" by (simp add: descriptor_def)
  have e: "methodMap ?base = Map.empty" by (simp add: accepted_def)
  have l: "descriptors_loop demo_env (JObject 0) ?nil [] ?base = (Inr (), ?base)" by simp
  have g: "getAsync demo_env (world ?susp) = (Inr (), [])"
    by (simp add: demo_simps model_simps)
  note t = on_connect_sees_earlier_responses_only [where env = demo_env and d = ?d
      and st = ?base and request = "JObject 0" and pre = ?nil and arrivals = "[]" and u = "()"
      and reached = ?base and wc = "[]" and here = ?run and slot = ?slot
      and post = "[?b]" and result = "JStr ''ok''" and w' = "[''open'']",
      OF k e l g refl refl]
  have p: "on_connection_pipeline demo_env ?d [JObject (cid (sock ?run)), JObject 0] (world ?run)
             = (Inr (JStr ''ok''), [''open''])"
    by (simp add: demo_simps model_simps)
  have r: "responses_before (propertyName ?d) ?nil = []"
    by (simp add: responses_before_def)
  have n: "propertyName ?d \<notin> set object_prototype_names"
    by (simp add: descriptor_def object_prototype_names_def)
  have one: "trace (snd (on_connection_event demo_env ?d (JObject 0) ?run)) =
              trace ?run @ logged_effects (send (sock ?run) (formatResult (JStr ''ok'')))"
  proof -
    have tr: "truthy (JStr ''ok'')" by simp
    from t p r n tr show ?thesis by blast
  qed
  have loop: "descriptors_loop demo_env (JObject 0) (?nil @ ?d # [?b]) [] ?base =
           descriptors_loop demo_env (JObject 0) [?b] (drop (Suc (length ?nil)) [])
             (snd (on_connection_event demo_env ?d (JObject 0) ?run))"
    using t by blast
  have first: "trace (snd (descriptors_loop demo_env (JObject 0) [?d, ?b] [] ?base))
     = [Send 1 (AsIs (JStr ''ok''))]"
    using loop one by (simp add: demo_simps model_simps)
  have second: "trace (snd (descriptors_loop demo_env (JObject 0) [?b, ?d] [] ?base))
     = [Send 1 (AsIs (JStr ''ok'')), Send 2 (AsIs (JStr ''ok''))]"
    by (simp add: demo_simps model_simps)
  from first second show ?thesis by simp
qed

text \<open>
  C8, as stated, fails: the listeners are not all registered before control goes back to
  the transport. The connection handler awaits the connection middleware before it reads
  the descriptors. A message that the transport emits during that suspension finds no
  listener and is dropped (the handler \<^verbatim>\<open>echo\<close> is never called), although the
  handler group declares a listener for it, which is registered later.
\<close>

theorem listeners_registered_late_counterexample:
  "trace (snd (on_connection demo_env_auth
      [descriptor ''open'' ON_CONNECTION [], descriptor ''echo'' ON_MESSAGE ''message'']
      (JObject 0) [[(''message'', [JStr ''hi''])]]
      (accepted demo_socket [demo_socket] [])))
     = [Unhandled ''message'' [JStr ''hi''], Send 1 (AsIs (JStr ''ok''))]
   \<and> world (snd (on_connection demo_env_auth
      [descriptor ''open'' ON_CONNECTION [], descriptor ''echo'' ON_MESSAGE ''message'']
      (JObject 0) [[(''message'', [JStr ''hi''])]]
      (accepted demo_socket [demo_socket] [])))
     = [''auth'', ''open'']
   \<and> listeners_for ''message'' (snd (on_connection demo_env_auth
      [descriptor ''open'' ON_CONNECTION [], descriptor ''echo'' ON_MESSAGE ''message'']
      (JObject 0) [[(''message'', [JStr ''hi''])]]
      (accepted demo_socket [demo_socket] [])))
     = [(''message'', MessageListener (descriptor ''echo'' ON_MESSAGE ''message''))]"
  by (simp add: demo_simps model_simps)

lemma message_listener_keeps:
  assumes "e \<in> set (trace st)"
  shows "e \<in> set (trace (snd (message_listener env info args st)))"
proof -
  obtain r w' where p: "message_pipeline env info args (world st) = (r, w')"
    by (cases rule: prod.exhaust)
  show ?thesis
  proof (cases r)
    case (Inl err)
    then show ?thesis using assms message_listener_raised [of env info args st err w'] p by simp
  next
    case (Inr result)
    show ?thesis
    proof (cases rule: disjE [OF excluded_middle [of "\<exists>f. last_arg args = JFunction f"]])
      case 1
      then show ?thesis
        using assms message_listener_bound [of env info args st result w'] p Inr by simp
    next
      case 2
      then obtain f where "last_arg args = JFunction f" by blast
      then show ?thesis
        using assms message_listener_ack [of env info args st result w' f] p Inr
        by (auto split: prod.splits sum.splits)
    qed
  qed
qed

lemma run_listener_keeps:
  assumes "e \<in> set (trace st)"
  shows "e \<in> set (trace (snd (run_listener env l args st)))"
proof (cases l)
  case ErrorListener
  then show ?thesis using assms by simp
next
  case PongListener
  then show ?thesis using assms by simp
next
  case (MessageListener info)
  then show ?thesis using message_listener_keeps [OF assms] by simp
next
  case (CloseListener info)
  then show ?thesis using assms
    by (auto simp: close_listener_cases split: prod.splits sum.splits)
qed

lemma run_listeners_keeps:
  "e \<in> set (trace st) \<Longrightarrow> e \<in> set (trace (run_listeners env ls args st))"
proof (induction ls arbitrary: st)
  case Nil
  then show ?case by simp
next
  case (Cons a ls)
  obtain n l where a: "a = (n, l)" by (cases rule: prod.exhaust)
  show ?case using Cons.IH [OF run_listener_keeps [OF Cons.prems, of env l args]] a by simp
qed

lemma socket_emit_keeps:
  "e \<in> set (trace st) \<Longrightarrow> e \<in> set (trace (socket_emit env name args st))"
  using run_listeners_keeps [of e st env "listeners_for name st" args]
  by (simp add: socket_emit_def)

lemma deliver_keeps:
  "e \<in> set (trace st) \<Longrightarrow> e \<in> set (trace (deliver env evs st))"
proof (induction evs arbitrary: st)
  case Nil
  then show ?case by simp
next
  case (Cons a evs)
  obtain name args where a: "a = (name, args)" by (cases rule: prod.exhaust)
  show ?case using Cons.IH [OF socket_emit_keeps [OF Cons.prems, of env name args]] a by simp
qed

lemma deliver_unhandled:
  assumes "listeners_for name st = []"
  shows "Unhandled name args \<in> set (trace (deliver env ((name, args) # others) st))"
proof -
  have "Unhandled name args \<in> set (trace (socket_emit env name args st))"
    using assms by (simp add: socket_emit_def)
  then show ?thesis using deliver_keeps by simp
qed

lemma process_descriptor_keeps:
  assumes "e \<in> set (trace (deliver env during (init_entry (propertyName d) st)))"
  shows "e \<in> set (trace (snd (process_descriptor env request d during st)))"
proof -
  let ?susp = "deliver env during (init_entry (propertyName d) st)"
  obtain g w where g: "getAsync env (world ?susp) = (g, w)" by (cases rule: prod.exhaust)
  show ?thesis
  proof (cases g)
    case (Inl err)
    then show ?thesis using assms g process_descriptor_failed [of env during d st err w] by simp
  next
    case (Inr u)
    let ?run = "?susp\<lparr>world := w\<rparr>"
    have a: "e \<in> set (trace ?run)" using assms by simp
    obtain r st' where ps: "push_response d ?run = (r, st')" by (cases rule: prod.exhaust)
    have keep_push: "e \<in> set (trace (snd (push_response d ?run)))"
      using push_response_fields [OF ps] ps a by simp
    have keep_conn: "e \<in> set (trace (snd (on_connection_event env d request ?run)))"
      using a by (auto simp: on_connection_event_cases split: prod.splits sum.splits)
    show ?thesis
      using g Inr process_descriptor_resolved [of env during d st w request] a keep_push keep_conn
      by (simp add: Let_def register_def)
  qed
qed

lemma descriptors_loop_keeps:
  "e \<in> set (trace st) \<Longrightarrow> e \<in> set (trace (snd (descriptors_loop env request ds arrivals st)))"
proof (induction ds arbitrary: arrivals st)
  case Nil
  then show ?case by simp
next
  case (Cons x xs)
  obtain r st' where p: "process_descriptor env request x (arrived arrivals) st = (r, st')"
    by (cases rule: prod.exhaust)
  have "e \<in> set (trace (deliver env (arrived arrivals) (init_entry (propertyName x) st)))"
    using Cons.prems by (intro deliver_keeps) (simp add: init_entry_fields)
  then have "e \<in> set (trace st')"
    using process_descriptor_keeps [of e env "arrived arrivals" x st request] p by simp
  then show ?case using Cons.IH [of st' "later arrivals"] p by (cases r) simp_all
qed

text \<open>
  C8, amended. The descriptors are processed in declaration order. When the connection
  handler completes, the on-message and on-disconnect listeners are registered in
  declaration order after the error and pong listeners, whatever arrived meanwhile. Each
  listener is registered when the loop reaches its descriptor: a loop that has gone
  through the descriptors \<open>pre\<close> has registered the listeners of \<open>pre\<close>, and goes on from
  there; a loop that fails (the controller does not resolve, a response table entry
  cannot be pushed to) has registered the listeners of the descriptors before the
  failure and none after. An inbound event that the transport emits while the connection
  middleware is awaited is dropped, whatever the descriptors are; so is one that it emits
  at the await of a later iteration, when no listener registered so far has its name.
\<close>

theorem listeners_registered_in_declaration_order:
  "(on_connection env infos request arrivals st = (Inr u, st') \<longrightarrow>
      listeners st' = listeners st @ [(''error'', ErrorListener), (''pong'', PongListener)]
            @ registrations infos)
   \<and> (descriptors_loop env request pre arrivals st = (Inr u, st') \<longrightarrow>
        listeners st' = listeners st @ registrations pre)
   \<and> (descriptors_loop env request pre arrivals st = (Inl err, st') \<longrightarrow>
        (\<exists>k < length pre. listeners st' = listeners st @ registrations (take k pre)))
   \<and> descriptors_loop env request (pre @ post) arrivals st =
       (case descriptors_loop env request pre arrivals st of
          (Inl err, failed) \<Rightarrow> (Inl err, failed)
        | (Inr v, reached) \<Rightarrow>
            descriptors_loop env request post (drop (length pre) arrivals) reached)
   \<and> (listeners st = [] \<and> name \<noteq> ''error'' \<and> name \<noteq> ''pong'' \<longrightarrow>
        Unhandled name args
          \<in> set (trace (snd (on_connection env infos request
                               (((name, args) # others) # rest) st))))
   \<and> (descriptors_loop env request pre arrivals st = (Inr u, st')
        \<and> filter (\<lambda>(n, l). n = name) (listeners st @ registrations pre) = [] \<longrightarrow>
        Unhandled name args
          \<in> set (trace (snd (process_descriptor env request d ((name, args) # others) st'))))"
proof -
  let ?base = "register ''pong'' PongListener
                (register ''error'' ErrorListener (st\<lparr>sock := (sock st)\<lparr>isAlive := Some True\<rparr>\<rparr>))"
  let ?cm = "compose (connectionMiddlewareManager env @ controllerConnectionMiddleware env)
               resolve_undefined"
  obtain c w where c: "?cm (world st) = (c, w)" by (cases rule: prod.exhaust)
  have whole: "listeners st' = listeners st @ [(''error'', ErrorListener), (''pong'', PongListener)]
            @ registrations infos"
    if o: "on_connection env infos request arrivals st = (Inr u, st')"
  proof (cases c)
    case (Inl e)
    then show ?thesis using o c
      by (simp add: on_connection_def Let_def await_app_def register_def)
  next
    case (Inr v)
    let ?start = "(deliver env (arrived arrivals) (?base\<lparr>world := w\<rparr>))\<lparr>methodMap := Map.empty\<rparr>"
    have run: "descriptors_loop env request infos (later arrivals) ?start = (Inr u, st')"
      using o c Inr by (simp add: on_connection_def Let_def await_app_def register_def)
    have l3: "listeners ?start = listeners st @ [(''error'', ErrorListener), (''pong'', PongListener)]"
      using deliver_frame [of env "arrived arrivals" "?base\<lparr>world := w\<rparr>"]
      by (simp add: register_def)
    show ?thesis using descriptors_loop_listeners [OF run] l3 by simp
  qed
  have a: "listeners st' = listeners st @ registrations pre"
    if "descriptors_loop env request pre arrivals st = (Inr u, st')"
    using descriptors_loop_listeners [OF that] by simp
  have a': "\<exists>k < length pre. listeners st' = listeners st @ registrations (take k pre)"
    if "descriptors_loop env request pre arrivals st = (Inl err, st')"
    using descriptors_loop_listeners [OF that] by simp
  note b = descriptors_loop_append [of env request pre post arrivals st]
  have early: "Unhandled name args
          \<in> set (trace (snd (on_connection env infos request
                               (((name, args) # others) # rest) st)))"
    if h: "listeners st = [] \<and> name \<noteq> ''error'' \<and> name \<noteq> ''pong''"
  proof -
    let ?sched = "((name, args) # others) # rest"
    let ?susp = "?base\<lparr>world := w\<rparr>"
    have "listeners_for name ?susp = []"
      using h by (auto simp: listeners_for_def register_def)
    then have d: "Unhandled name args \<in> set (trace (deliver env ((name, args) # others) ?susp))"
      by (rule deliver_unhandled)
    show ?thesis
    proof (cases c)
      case (Inl e)
      then show ?thesis using c d
        by (simp add: on_connection_def Let_def await_app_def register_def arrived_def)
    next
      case (Inr v)
      let ?start = "(deliver env ((name, args) # others) ?susp)\<lparr>methodMap := Map.empty\<rparr>"
      have "Unhandled name args \<in> set (trace ?start)" using d by simp
      then have "Unhandled name args
          \<in> set (trace (snd (descriptors_loop env request infos rest ?start)))"
        by (rule descriptors_loop_keeps)
      then show ?thesis using c Inr
        by (simp add: on_connection_def Let_def await_app_def register_def arrived_def later_def)
    qed
  qed
  have late: "Unhandled name args
          \<in> set (trace (snd (process_descriptor env request d ((name, args) # others) st')))"
    if h: "descriptors_loop env request pre arrivals st = (Inr u, st')
        \<and> filter (\<lambda>(n, l). n = name) (listeners st @ registrations pre) = []"
  proof -
    have "listeners st' = listeners st @ registrations pre" using h a by blast
    then have "listeners_for name (init_entry (propertyName d) st') = []"
      using h by (simp add: listeners_for_def init_entry_fields)
    then have "Unhandled name args
        \<in> set (trace (deliver env ((name, args) # others) (init_entry (propertyName d) st')))"
      by (rule deliver_unhandled)
    then show ?thesis by (rule process_descriptor_keeps)
  qed
  from whole a a' b early late show ?thesis by blast
qed

theorem listeners_registered_in_declaration_order_witness:
  "listeners (snd (on_connection demo_env_auth
      [descriptor ''open'' ON_CONNECTION [], descriptor ''echo'' ON_MESSAGE ''message'',
       descriptor ''bye'' ON_DISCONNECTION []]
      (JObject 0) [] (accepted demo_socket [demo_socket] [])))
     = [(''error'', ErrorListener), (''pong'', PongListener),
        (''message'', MessageListener (descriptor ''echo'' ON_MESSAGE ''message'')),
        (''close'', CloseListener (descriptor ''bye'' ON_DISCONNECTION []))]"
proof -
  let ?base = "accepted demo_socket [demo_socket] ([] :: string list)"
  let ?infos = "[descriptor ''open'' ON_CONNECTION [], descriptor ''echo'' ON_MESSAGE ''message'',
       descriptor ''bye'' ON_DISCONNECTION []]"
  let ?run = "on_connection demo_env_auth ?infos (JObject 0) [] ?base"
  have "fst ?run = Inr ()" by (simp add: demo_simps model_simps)
  then have o: "?run = (Inr (), snd ?run)" by (simp add: prod_eq_iff)
  have l: "listeners (snd ?run) =
          listeners ?base @ [(''error'', ErrorListener), (''pong'', PongListener)]
            @ registrations ?infos"
    using listeners_registered_in_declaration_order [where env = demo_env_auth and st = ?base
        and infos = ?infos and request = "JObject 0" and arrivals = "[]" and u = "()"
        and st' = "snd ?run"] o
    by blast
  show ?thesis unfolding l
    by (simp add: registrations_def registration_def descriptor_def accepted_def)
qed

subsection \<open>Liveness monitor\<close>

lemma concerns_simps:
  "concerns k (Ping j) = (j = k)" "concerns k (Terminate j) = (j = k)"
  by (auto simp: concerns_def)

lemma tick_cids: "map cid (fst (heartbeat_tick cs)) = map cid cs"
  by (induction cs) (auto simp: heartbeat_check_def split: prod.splits)

lemma tick_absent:
  "k \<notin> cid ` set cs \<Longrightarrow> filter (concerns k) (snd (heartbeat_tick cs)) = []"
  by (induction cs) (auto simp: heartbeat_check_def concerns_simps split: prod.splits)

lemma tick_trace:
  "distinct (map cid cs) \<Longrightarrow> find (\<lambda>x. cid x = k) cs = Some c \<Longrightarrow>
     filter (concerns k) (snd (heartbeat_tick cs)) =
       (if isAlive c = Some False then [Terminate k] else [Ping k])"
proof (induction cs)
  case Nil
  then show ?case by simp
next
  case (Cons a cs)
  obtain rest' es' where r: "heartbeat_tick cs = (rest', es')" by (cases rule: prod.exhaust)
  show ?case
  proof (cases rule: disjE [OF excluded_middle [of "cid a = k"]])
    case 1
    then have f: "find (\<lambda>x. cid x = k) cs = Some c" using Cons.prems(2) by simp
    have d: "distinct (map cid cs)" using Cons.prems(1) by simp
    show ?thesis using Cons.IH [OF d f] 1 r
      by (auto simp: heartbeat_check_def concerns_simps)
  next
    case 2
    then have ac: "a = c" using Cons.prems(2) by simp
    have "k \<notin> cid ` set cs" using Cons.prems(1) 2 by auto
    then have "filter (concerns k) (snd (heartbeat_tick cs)) = []" by (rule tick_absent)
    then show ?thesis using 2 ac r by (auto simp: heartbeat_check_def concerns_simps)
  qed
qed

lemma tick_find:
  "find (\<lambda>x. cid x = k) cs = Some c \<Longrightarrow>
     find (\<lambda>x. cid x = k) (fst (heartbeat_tick cs)) = Some (c\<lparr>isAlive := Some False\<rparr>)"
  by (induction cs) (auto simp: heartbeat_check_def split: prod.splits if_splits)

lemma pong_cids: "map cid (pong_from j cs) = map cid cs"
  by (induction cs) (auto simp: pong_listener_def)

lemma pong_find:
  "find (\<lambda>x. cid x = k) cs = Some c \<Longrightarrow>
     find (\<lambda>x. cid x = k) (pong_from j cs) =
       Some (if j = k then c\<lparr>isAlive := Some True\<rparr> else c)"
  by (induction cs) (auto simp: pong_listener_def split: if_splits)

lemma hb_run_solo:
  "distinct (map cid cs) \<Longrightarrow> find (\<lambda>x. cid x = k) cs = Some c \<Longrightarrow>
     filter (concerns k) (snd (hb_run evs (cs, tr))) =
       filter (concerns k) tr @ hb_solo k (isAlive c) (seen_by k evs)"
proof (induction evs arbitrary: cs tr c)
  case Nil
  then show ?case by simp
next
  case (Cons ev evs)
  show ?case
  proof (cases ev)
    case Tick
    obtain cs' es where t: "heartbeat_tick cs = (cs', es)" by (cases rule: prod.exhaust)
    have d': "distinct (map cid cs')" using tick_cids [of cs] t Cons.prems(1) by simp
    have f': "find (\<lambda>x. cid x = k) cs' = Some (c\<lparr>isAlive := Some False\<rparr>)"
      using tick_find [OF Cons.prems(2)] t by simp
    have e: "filter (concerns k) es = (if isAlive c = Some False then [Terminate k] else [Ping k])"
      using tick_trace [OF Cons.prems] t by simp
    show ?thesis using Cons.IH [OF d' f', of "tr @ es"] Tick t e by simp
  next
    case (Pong j)
    have d': "distinct (map cid (pong_from j cs))" using pong_cids [of j cs] Cons.prems(1) by simp
    note f' = pong_find [OF Cons.prems(2), of j]
    show ?thesis using Cons.IH [OF d' f', of tr] Pong by simp
  qed
qed

lemma solo_terminates:
  "Terminate k \<in> set (hb_solo k a evs) \<longleftrightarrow>
     two_unanswered ((if a = Some False then [Tick] else []) @ evs)"
proof (induction evs arbitrary: a)
  case Nil
  then show ?case by simp
next
  case (Cons ev evs)
  show ?case
  proof (cases ev)
    case Tick
    then show ?thesis using Cons.IH [of "Some False"] Cons.IH [of a] by auto
  next
    case (Pong j)
    then show ?thesis using Cons.IH [of "Some True"] by auto
  qed
qed

lemma find_member:
  "distinct (map cid cs) \<Longrightarrow> c \<in> set cs \<Longrightarrow> find (\<lambda>x. cid x = cid c) cs = Some c"
  by (induction cs) (auto simp: image_iff)


lemma solo_answering:
  "a \<noteq> Some False \<Longrightarrow>
     hb_solo k a (seen_by k (concat (replicate n [Tick, Pong k]))) = replicate n (Ping k)"
  by (induction n arbitrary: a) auto

lemma run_listener_alive:
  assumes "isAlive (sock st) = Some True"
  shows "isAlive (sock (snd (run_listener env l args st))) = Some True"
proof (cases l)
  case ErrorListener
  then show ?thesis using assms by simp
next
  case PongListener
  then show ?thesis by (simp add: pong_listener_def)
next
  case (MessageListener info)
  then show ?thesis using assms message_listener_frame [of env info args st 0] by simp
next
  case (CloseListener info)
  then show ?thesis using assms close_listener_frame [of env info args st 0] by simp
qed

lemma run_listeners_alive:
  "isAlive (sock st) = Some True \<Longrightarrow>
     isAlive (sock (run_listeners env ls args st)) = Some True"
proof (induction ls arbitrary: st)
  case Nil
  then show ?case by simp
next
  case (Cons a ls)
  obtain n l where a: "a = (n, l)" by (cases rule: prod.exhaust)
  show ?case
    using Cons.IH [OF run_listener_alive [OF Cons.prems, of env l args]] a by simp
qed

lemma deliver_alive:
  "isAlive (sock st) = Some True \<Longrightarrow> isAlive (sock (deliver env evs st)) = Some True"
proof (induction evs arbitrary: st)
  case Nil
  then show ?case by simp
next
  case (Cons a evs)
  obtain name args where a: "a = (name, args)" by (cases rule: prod.exhaust)
  have "isAlive (sock (socket_emit env name args st)) = Some True"
    using Cons.prems run_listeners_alive [OF Cons.prems, of env "listeners_for name st" args]
    by (simp add: socket_emit_def)
  then show ?case using Cons.IH a by simp
qed

lemma process_descriptor_alive:
  assumes "isAlive (sock st) = Some True"
  shows "isAlive (sock (snd (process_descriptor env request d during st))) = Some True"
proof -
  let ?susp = "deliver env during (init_entry (propertyName d) st)"
  have a: "isAlive (sock ?susp) = Some True"
    using assms by (intro deliver_alive) (simp add: init_entry_fields)
  obtain g w where g: "getAsync env (world ?susp) = (g, w)" by (cases rule: prod.exhaust)
  show ?thesis
  proof (cases g)
    case (Inl err)
    then show ?thesis using a g process_descriptor_failed [of env during d st err w] by simp
  next
    case (Inr u)
    let ?run = "?susp\<lparr>world := w\<rparr>"
    obtain r st' where ps: "push_response d ?run = (r, st')" by (cases rule: prod.exhaust)
    have keep_push: "isAlive (sock (snd (push_response d ?run))) = Some True"
      using push_response_fields [OF ps] ps a by simp
    show ?thesis
      using g Inr process_descriptor_resolved [of env during d st w request] a keep_push
        on_connection_event_frame [of env d request ?run 0]
      by (simp add: Let_def register_def)
  qed
qed

lemma descriptors_loop_alive:
  "isAlive (sock st) = Some True \<Longrightarrow>
     isAlive (sock (snd (descriptors_loop env request ds arrivals st))) = Some True"
proof (induction ds arbitrary: arrivals st)
  case Nil
  then show ?case by simp
next
  case (Cons x xs)
  obtain r st' where p: "process_descriptor env request x (arrived arrivals) st = (r, st')"
    by (cases rule: prod.exhaust)
  have "isAlive (sock st') = Some True"
    using process_descriptor_alive [OF Cons.prems, of env request x "arrived arrivals"] p by simp
  then show ?case using Cons.IH [of st' "later arrivals"] p by (cases r) simp_all
qed

lemma on_connection_alive:
  "isAlive (sock (snd (on_connection env infos request arrivals st))) = Some True"
proof -
  let ?st2 = "register ''pong'' PongListener
                (register ''error'' ErrorListener (st\<lparr>sock := (sock st)\<lparr>isAlive := Some True\<rparr>\<rparr>))"
  obtain r w' where c: "compose (connectionMiddlewareManager env @ controllerConnectionMiddleware env)
        resolve_undefined (world st) = (r, w')"
    by (cases rule: prod.exhaust)
  have a: "isAlive (sock (deliver env (arrived arrivals) (?st2\<lparr>world := w'\<rparr>))) = Some True"
    by (intro deliver_alive) (simp add: register_def)
  show ?thesis
  proof (cases r)
    case (Inl err)
    then show ?thesis using c a
      by (simp add: on_connection_def Let_def await_app_def register_def)
  next
    case (Inr v)
    let ?st3 = "(deliver env (arrived arrivals) (?st2\<lparr>world := w'\<rparr>))\<lparr>methodMap := Map.empty\<rparr>"
    have run: "on_connection env infos request arrivals st =
        descriptors_loop env request infos (later arrivals) ?st3"
      using c Inr by (simp add: on_connection_def Let_def await_app_def register_def)
    have "isAlive (sock ?st3) = Some True" using a by simp
    then show ?thesis unfolding run by (rule descriptors_loop_alive)
  qed
qed

text \<open>
  C2. The connection handler leaves a socket with \<^verbatim>\<open>isAlive\<close> set. A connection
  among the monitored clients, alive in this sense, is terminated in the course of a history of ticks and pongs if and only if two ticks
  follow each other with no pong of that connection between them. A connection that
  answers every probe is pinged at every tick and never terminated. A connection that
  never answers is marked suspect and pinged at the first tick, and terminated, with no
  further ping, at the second. (A terminated socket stays among the clients until the
  transport removes it.)
\<close>

theorem heartbeat_two_unanswered_ticks:
  assumes "distinct (map cid clients)" and "c \<in> set clients" and "isAlive c = Some True"
  shows "(Terminate (cid c) \<in> set (snd (hb_run evs (clients, [])))
            \<longleftrightarrow> two_unanswered (seen_by (cid c) evs))
       \<and> filter (concerns (cid c))
            (snd (hb_run (concat (replicate n [Tick, Pong (cid c)])) (clients, [])))
           = replicate n (Ping (cid c))
       \<and> filter (concerns (cid c)) (snd (hb_run [Tick] (clients, []))) = [Ping (cid c)]
       \<and> find (\<lambda>x. cid x = cid c) (fst (hb_run [Tick] (clients, [])))
           = Some (c\<lparr>isAlive := Some False\<rparr>)
       \<and> filter (concerns (cid c)) (snd (hb_run [Tick, Tick] (clients, [])))
           = [Ping (cid c), Terminate (cid c)]
       \<and> isAlive (sock (snd (on_connection env infos request arrivals st))) = Some True"
proof -
  let ?k = "cid c"
  have f: "find (\<lambda>x. cid x = ?k) clients = Some c"
    using assms(1,2) by (rule find_member)
  note solo = hb_run_solo [OF assms(1) f, of _ "[]"]
  have "Terminate ?k \<in> set (snd (hb_run evs (clients, [])))
          \<longleftrightarrow> Terminate ?k \<in> set (filter (concerns ?k) (snd (hb_run evs (clients, []))))"
    by (simp add: concerns_simps)
  also have "\<dots> \<longleftrightarrow> two_unanswered (seen_by ?k evs)"
    using solo [of evs] assms(3) by (simp add: solo_terminates)
  finally have iff: "Terminate ?k \<in> set (snd (hb_run evs (clients, [])))
          \<longleftrightarrow> two_unanswered (seen_by ?k evs)" .
  have answering: "filter (concerns ?k)
            (snd (hb_run (concat (replicate n [Tick, Pong ?k])) (clients, [])))
           = replicate n (Ping ?k)"
    using solo [of "concat (replicate n [Tick, Pong ?k])"] assms(3)
    by (simp add: solo_answering)
  have first: "filter (concerns ?k) (snd (hb_run [Tick] (clients, []))) = [Ping ?k]"
    using solo [of "[Tick]"] assms(3) by simp
  have suspect: "find (\<lambda>x. cid x = ?k) (fst (hb_run [Tick] (clients, [])))
           = Some (c\<lparr>isAlive := Some False\<rparr>)"
    using tick_find [OF f] by (simp split: prod.splits)
  have second: "filter (concerns ?k) (snd (hb_run [Tick, Tick] (clients, [])))
           = [Ping ?k, Terminate ?k]"
    using solo [of "[Tick, Tick]"] assms(3) by simp
  note fresh = on_connection_alive [of env infos request arrivals st]
  from iff answering first suspect second fresh show ?thesis by blast
qed

theorem heartbeat_two_unanswered_ticks_witness:
  "snd (hb_run [Tick, Pong 1, Tick, Tick]
          ([\<lparr>cid = 1, readyState = OPEN, isAlive = Some True\<rparr>,
            \<lparr>cid = 2, readyState = OPEN, isAlive = Some True\<rparr>], []))
     = [Ping 1, Ping 2, Ping 1, Terminate 2, Terminate 1, Terminate 2]
   \<and> two_unanswered (seen_by 2 [Tick, Pong 1, Tick, Tick])
   \<and> filter (concerns 2) (snd (hb_run [Tick, Tick]
          ([\<lparr>cid = 1, readyState = OPEN, isAlive = Some True\<rparr>,
            \<lparr>cid = 2, readyState = OPEN, isAlive = Some True\<rparr>], [])))
     = [Ping 2, Terminate 2]"
  using heartbeat_two_unanswered_ticks [of
      "[\<lparr>cid = 1, readyState = OPEN, isAlive = Some True\<rparr>,
        \<lparr>cid = 2, readyState = OPEN, isAlive = Some True\<rparr>]"
      "\<lparr>cid = 2, readyState = OPEN, isAlive = Some True\<rparr>"
      "[Tick, Pong 1, Tick, Tick]" 0]
  by (simp add: heartbeat_check_def pong_listener_def concerns_simps)

end
